theory Spec2Isabelle
  imports
    Complex_Main
    "HOL-Library.AList"
    "HOL-Library.Char_ord"
    "HOL-Library.List_Lexorder"
begin

section \<open>Python values\<close>

text \<open>
  The program is Python. Its non-negative counters and frame indices are modelled by
  \<^typ>\<open>nat\<close>, its strings by \<^typ>\<open>string\<close>. A \<^verbatim>\<open>dict\<close> is an association list with
  distinct keys in insertion order: \<^verbatim>\<open>d[k] = v\<close> is \<^const>\<open>AList.update\<close>,
  \<^verbatim>\<open>d.get(k, dflt)\<close> is \<open>dict_get\<close> below, \<^verbatim>\<open>len(d)\<close> is \<^const>\<open>length\<close>.

  A float is an IEEE double and is modelled by the \<^typ>\<open>real\<close> number it holds, so that
  comparisons of floats are comparisons of reals. The arithmetic of the detection and
  localization stages rounds: there \<^verbatim>\<open>+\<close>, \<^verbatim>\<open>-\<close>, \<^verbatim>\<open>*\<close>, \<^verbatim>\<open>/\<close> and \<^verbatim>\<open>round\<close> are the
  operations \<open>fadd\<close>, \<open>fsub\<close>, \<open>fmul\<close>, \<open>fdiv\<close> and \<open>fround\<close> of the environment
  (section ``Configuration and collaborators''), about which nothing is assumed, and a
  float literal that a comparison reads is the double it denotes. The scores of the
  report (event severity, false-positive risk, frame severity) are computed over the
  reals: they are the exact values, which the program's floats approximate in the last
  bits, and no comparison with a threshold reads them.
\<close>

datatype py_error = IndexError | KeyError | TypeError

text \<open>A metric value: the program stores numbers and, for one key, a formatted text.\<close>

datatype mval = MNum real | MStr string

type_synonym metrics_dict = "(string \<times> mval) list"

definition dict_get :: "('k \<times> 'v) list \<Rightarrow> 'k \<Rightarrow> 'v \<Rightarrow> 'v" where
  "dict_get d k dflt = (case map_of d k of None \<Rightarrow> dflt | Some v \<Rightarrow> v)"

text \<open>The confidence labels and the frame types, as the program spells them.\<close>

abbreviation SANGAT_TINGGI :: string where "SANGAT_TINGGI \<equiv> ''SANGAT TINGGI''"
abbreviation TINGGI :: string where "TINGGI \<equiv> ''TINGGI''"
abbreviation SEDANG :: string where "SEDANG \<equiv> ''SEDANG''"
abbreviation RENDAH :: string where "RENDAH \<equiv> ''RENDAH''"
abbreviation NA :: string where "NA \<equiv> ''N/A''"

abbreviation original :: string where "original \<equiv> ''original''"
abbreviation anomaly_insertion :: string where "anomaly_insertion \<equiv> ''anomaly_insertion''"
abbreviation anomaly_duplication :: string where "anomaly_duplication \<equiv> ''anomaly_duplication''"
abbreviation anomaly_discontinuity :: string where
  "anomaly_discontinuity \<equiv> ''anomaly_discontinuity''"

section \<open>Data model\<close>

text \<open>
  \<^verbatim>\<open>Evidence\<close> and \<^verbatim>\<open>FrameInfo\<close> are the program's dataclasses. The fields
  \<^verbatim>\<open>detailed_analysis\<close>, \<^verbatim>\<open>visualizations\<close> and \<^verbatim>\<open>explanations\<close> of \<^verbatim>\<open>Evidence\<close>
  and \<^verbatim>\<open>img_path_comparison\<close>, \<^verbatim>\<open>histogram_data\<close>, \<^verbatim>\<open>edge_density\<close> and
  \<^verbatim>\<open>blur_metric\<close> of \<^verbatim>\<open>FrameInfo\<close> hold report text and plots only; no decision reads
  them, and they are left out. The field \<^verbatim>\<open>type\<close> is \<open>frame_type\<close> here.
\<close>

record Evidence =
  reasons :: "string list"
  metrics :: metrics_dict
  confidence :: string
  ela_path :: "string option"
  sift_path :: "string option"

record FrameInfo =
  index :: nat
  timestamp :: real
  img_path_original :: string
  img_path :: string
  hash :: "string option"
  frame_type :: string
  ssim_to_prev :: "real option"
  optical_flow_mag :: "real option"
  color_cluster :: "int option"
  evidence_obj :: Evidence

text \<open>
  A localized event is the \<^verbatim>\<open>dict\<close> that stage 4 builds. The keys \<^verbatim>\<open>duration\<close> and
  \<^verbatim>\<open>severity_score\<close> are added after the scan: \<open>None\<close> is the absent key.
\<close>

record loc_event =
  event :: string
  start_frame :: nat
  end_frame :: nat
  start_ts :: real
  end_ts :: real
  frame_count :: nat
  ev_confidence :: string
  ev_reasons :: "string list"
  ev_metrics :: metrics_dict
  all_metrics :: "metrics_dict list"
  ev_image :: string
  ev_ela_path :: "string option"
  ev_sift_path :: "string option"
  duration :: "real option"
  severity_score :: "real option"

text \<open>
  \<^verbatim>\<open>AnalysisResult\<close>, with the fields the stages below write or read.
\<close>

record AnalysisResult =
  frames :: "FrameInfo list"
  confidence_distribution :: "(string \<times> nat) list"
  localizations :: "loc_event list"

section \<open>Configuration and collaborators\<close>

text \<open>
  The global \<^verbatim>\<open>CONFIG\<close> dictionary, with the entries the stages below read. The
  functions take it as a parameter; \<open>CONFIG\<close> holds the values of the source.
\<close>

record Config =
  SSIM_DISCONTINUITY_DROP :: real
  OPTICAL_FLOW_Z_THRESH :: real
  DUPLICATION_SSIM_CONFIRM :: real
  SIFT_MIN_MATCH_COUNT :: nat

text \<open>
  The doubles that the literals \<^verbatim>\<open>0.30\<close>, \<^verbatim>\<open>0.80\<close>, \<^verbatim>\<open>0.7\<close>, \<^verbatim>\<open>0.6745\<close> and \<^verbatim>\<open>1e-9\<close>
  of the source denote (\<^verbatim>\<open>float.as_integer_ratio\<close>).
\<close>

definition float_0_30 :: real where
  "float_0_30 = 5404319552844595 / 2 ^ 54"

definition float_0_80 :: real where
  "float_0_80 = 3602879701896397 / 2 ^ 52"

definition float_0_7 :: real where
  "float_0_7 = 3152519739159347 / 2 ^ 52"

definition float_0_6745 :: real where
  "float_0_6745 = 6075355897322799 / 2 ^ 53"

definition float_1e_9 :: real where
  "float_1e_9 = 4835703278458517 / 2 ^ 82"

definition CONFIG :: Config where
  "CONFIG = \<lparr>SSIM_DISCONTINUITY_DROP = float_0_30, OPTICAL_FLOW_Z_THRESH = 5.0,
              DUPLICATION_SSIM_CONFIRM = float_0_80, SIFT_MIN_MATCH_COUNT = 10\<rparr>"

text \<open>
  A grayscale image as \<^verbatim>\<open>cv2.imread(path, cv2.IMREAD_GRAYSCALE)\<close> returns it: rows of
  pixel intensities. An ELA array is \<^verbatim>\<open>np.array\<close> of an RGB image: rows of pixels of
  channel values.
\<close>

type_synonym gray_image = "nat list list"
type_synonym ela_array = "nat list list list"

definition shape :: "'a list list \<Rightarrow> nat \<times> nat" where
  "shape im = (length im, (case im of [] \<Rightarrow> 0 | row # _ \<Rightarrow> length row))"

text \<open>
  \<^verbatim>\<open>im.max()\<close> and \<^verbatim>\<open>im.min()\<close>. (\<^verbatim>\<open>cv2.imread\<close> never returns an array without
  pixels; for one, both are 0 here.)
\<close>

definition img_max :: "gray_image \<Rightarrow> nat" where
  "img_max im = fold max (concat im) 0"

definition img_min :: "gray_image \<Rightarrow> nat" where
  "img_min im = (case concat im of [] \<Rightarrow> 0 | p # ps \<Rightarrow> fold min ps p)"

text \<open>
  What OpenCV's SIFT, matcher and RANSAC deliver for a pair of images:
  the numbers of keypoints, whether both descriptor arrays exist, for every descriptor
  the distances of its nearest matches (\<^verbatim>\<open>knnMatch\<close> with \<^verbatim>\<open>k=2\<close>), the RANSAC mask
  (\<open>None\<close> when \<^verbatim>\<open>findHomography\<close> finds no matrix), and the path of the picture of
  the matches.
\<close>

record sift_cv =
  kp1 :: nat
  kp2 :: nat
  des_found :: bool
  knn :: "real list list"
  ransac_mask :: "bool list option"
  vis_path :: string

text \<open>
  The collaborators: image loading, \<^verbatim>\<open>skimage\<close>'s structural similarity (two images
  and the data range), OpenCV's feature matching (\<open>None\<close>: it raised, which
  \<^verbatim>\<open>compare_sift_enhanced\<close> catches), and \<^verbatim>\<open>perform_ela\<close> (the path of the ELA picture,
  the maximum difference and the ELA array; \<open>None\<close> on failure). With them, the
  floating-point unit: the rounded sum, difference, product and quotient of two floats,
  and \<^verbatim>\<open>round(x, nd)\<close>.
\<close>

record Env =
  imread_gray :: "string \<Rightarrow> gray_image option"
  ssim :: "gray_image \<Rightarrow> gray_image \<Rightarrow> real \<Rightarrow> real"
  sift_match :: "string \<Rightarrow> string \<Rightarrow> sift_cv option"
  perform_ela :: "string \<Rightarrow> (string \<times> nat \<times> ela_array) option"
  fadd :: "real \<Rightarrow> real \<Rightarrow> real"
  fsub :: "real \<Rightarrow> real \<Rightarrow> real"
  fmul :: "real \<Rightarrow> real \<Rightarrow> real"
  fdiv :: "real \<Rightarrow> real \<Rightarrow> real"
  fround :: "real \<Rightarrow> nat \<Rightarrow> real"

text \<open>\<^verbatim>\<open>str(n)\<close> for a non-negative integer.\<close>

fun str_nat :: "nat \<Rightarrow> string" where
  "str_nat n =
     (if n < 10 then [''0123456789'' ! n]
      else str_nat (n div 10) @ [''0123456789'' ! (n mod 10)])"

definition str_int :: "int \<Rightarrow> string" where
  "str_int i = (if i < 0 then CHR ''-'' # str_nat (nat (- i)) else str_nat (nat i))"

section \<open>Evidence updates\<close>

definition add_reason :: "string \<Rightarrow> FrameInfo \<Rightarrow> FrameInfo" where
  "add_reason r f =
     f\<lparr>evidence_obj := (evidence_obj f)\<lparr>reasons := reasons (evidence_obj f) @ [r]\<rparr>\<rparr>"

definition set_metric :: "string \<Rightarrow> mval \<Rightarrow> FrameInfo \<Rightarrow> FrameInfo" where
  "set_metric k v f =
     f\<lparr>evidence_obj := (evidence_obj f)\<lparr>metrics := AList.update k v (metrics (evidence_obj f))\<rparr>\<rparr>"

definition set_confidence :: "string \<Rightarrow> FrameInfo \<Rightarrow> FrameInfo" where
  "set_confidence c f = f\<lparr>evidence_obj := (evidence_obj f)\<lparr>confidence := c\<rparr>\<rparr>"

text \<open>\<^verbatim>\<open>if f.hash\<close>: the hash is a non-empty string.\<close>

definition hash_truthy :: "FrameInfo \<Rightarrow> bool" where
  "hash_truthy f = (case hash f of None \<Rightarrow> False | Some h \<Rightarrow> h \<noteq> [])"

text \<open>\<^verbatim>\<open>f.type.startswith("anomaly")\<close>\<close>

definition is_anomaly :: "FrameInfo \<Rightarrow> bool" where
  "is_anomaly f = (take 7 (frame_type f) = ''anomaly'')"

section \<open>Stage 2: comparison with the baseline (\<^verbatim>\<open>run_tahap_2_analisis_temporal\<close>)\<close>

text \<open>
  The first loop of stage 2 fills \<open>ssim_to_prev\<close> and \<open>optical_flow_mag\<close> from the
  images; the frames below already carry these values. The second part is the baseline
  check: \<open>None\<close> is a run without baseline, \<open>Some bfs\<close> one whose baseline has the
  frames \<open>bfs\<close>.
\<close>

definition base_hashes :: "FrameInfo list \<Rightarrow> string list" where
  "base_hashes bfs = map (\<lambda>bf. the (hash bf)) (filter hash_truthy bfs)"

definition mark_insertion :: "FrameInfo \<Rightarrow> FrameInfo" where
  "mark_insertion f =
     set_confidence SANGAT_TINGGI
       (add_reason ''Frame tidak ada di baseline'' (f\<lparr>frame_type := anomaly_insertion\<rparr>))"

definition baseline_check :: "FrameInfo list option \<Rightarrow> FrameInfo list \<Rightarrow> FrameInfo list" where
  "baseline_check baseline fs =
     (case baseline of
        None \<Rightarrow> fs
      | Some bfs \<Rightarrow>
          map (\<lambda>f_sus. if hash_truthy f_sus \<and> the (hash f_sus) \<notin> set (base_hashes bfs)
                        then mark_insertion f_sus else f_sus) fs)"

section \<open>Stage 3: evidence synthesis (\<^verbatim>\<open>run_tahap_3_sintesis_bukti\<close>)\<close>

subsection \<open>Optical flow\<close>

text \<open>\<^verbatim>\<open>np.median\<close> and \<^verbatim>\<open>scipy.stats.median_abs_deviation\<close> of a non-empty list.\<close>

definition median :: "Env \<Rightarrow> real list \<Rightarrow> real" where
  "median env xs =
     (let s = sort xs; n = length s in
      if odd n then s ! (n div 2)
      else fdiv env (fadd env (s ! (n div 2 - 1)) (s ! (n div 2))) 2)"

definition median_abs_deviation :: "Env \<Rightarrow> real list \<Rightarrow> real" where
  "median_abs_deviation env xs = median env (map (\<lambda>x. \<bar>fsub env x (median env xs)\<bar>) xs)"

definition flow_check :: "Config \<Rightarrow> Env \<Rightarrow> real \<Rightarrow> real \<Rightarrow> FrameInfo \<Rightarrow> FrameInfo" where
  "flow_check cfg env median_flow mad_flow f =
     (case optical_flow_mag f of
        None \<Rightarrow> f
      | Some v \<Rightarrow>
          if v > 0 then
            (if mad_flow \<noteq> 0 then
               (let z_score = fdiv env (fmul env float_0_6745 (fsub env v median_flow)) mad_flow in
                if \<bar>z_score\<bar> > OPTICAL_FLOW_Z_THRESH cfg
                then set_metric ''optical_flow_z_score'' (MNum (fround env z_score 2))
                       (add_reason ''Lonjakan Aliran Optik'' f)
                else f)
             else f)
          else f)"

definition flow_pass :: "Config \<Rightarrow> Env \<Rightarrow> FrameInfo list \<Rightarrow> FrameInfo list" where
  "flow_pass cfg env fs =
     (let flow_mags = concat (map (\<lambda>f. case optical_flow_mag f of None \<Rightarrow> [] | Some m \<Rightarrow> [m]) fs)
      in if flow_mags \<noteq> [] then
           (let filtered_flow_mags = filter (\<lambda>m. m > 0.0) flow_mags in
            if length filtered_flow_mags > 1 then
              (let median_flow = median env filtered_flow_mags;
                   mad0 = median_abs_deviation env filtered_flow_mags;
                   mad_flow = (if mad0 = 0 then float_1e_9 else mad0)
               in map (flow_check cfg env median_flow mad_flow) fs)
            else fs)
         else fs)"

subsection \<open>Structural similarity\<close>

definition ssim_check :: "Config \<Rightarrow> Env \<Rightarrow> FrameInfo \<Rightarrow> FrameInfo \<Rightarrow> FrameInfo" where
  "ssim_check cfg env f_prev f_curr =
     (case (ssim_to_prev f_curr, ssim_to_prev f_prev) of
        (Some cur, Some prev) \<Rightarrow>
          (let ssim_drop = fsub env prev cur in
           if ssim_drop > SSIM_DISCONTINUITY_DROP cfg
           then set_metric ''ssim_drop'' (MNum (fround env ssim_drop 4))
                  (add_reason ''Penurunan Drastis SSIM'' f_curr)
           else if cur < float_0_7
           then set_metric ''ssim_absolute_low'' (MNum (fround env cur 4))
                  (add_reason ''SSIM Sangat Rendah'' f_curr)
           else f_curr)
      | _ \<Rightarrow> f_curr)"

text \<open>
  \<^verbatim>\<open>for i in range(1, n)\<close> over \<^verbatim>\<open>frames[i]\<close> and \<^verbatim>\<open>frames[i - 1]\<close>: the loop
  carries the previous frame as the iteration before left it.
\<close>

fun pairwise_loop ::
  "(FrameInfo \<Rightarrow> FrameInfo \<Rightarrow> FrameInfo) \<Rightarrow> FrameInfo \<Rightarrow> FrameInfo list \<Rightarrow> FrameInfo list" where
  "pairwise_loop check f_prev [] = []"
| "pairwise_loop check f_prev (f_curr # rest) =
     (let f' = check f_prev f_curr in f' # pairwise_loop check f' rest)"

definition pairwise_pass ::
  "(FrameInfo \<Rightarrow> FrameInfo \<Rightarrow> FrameInfo) \<Rightarrow> FrameInfo list \<Rightarrow> FrameInfo list" where
  "pairwise_pass check fs =
     (case fs of [] \<Rightarrow> [] | f0 # rest \<Rightarrow> f0 # pairwise_loop check f0 rest)"

definition ssim_pass :: "Config \<Rightarrow> Env \<Rightarrow> FrameInfo list \<Rightarrow> FrameInfo list" where
  "ssim_pass cfg env fs = pairwise_pass (ssim_check cfg env) fs"

subsection \<open>Scene changes\<close>

text \<open>The arrow of the formatted text is U+2192, three bytes in UTF-8.\<close>

definition arrow :: string where
  "arrow = [CHR '' '', CHR 0xE2, CHR 0x86, CHR 0x92, CHR '' '']"

definition scene_check :: "FrameInfo \<Rightarrow> FrameInfo \<Rightarrow> FrameInfo" where
  "scene_check f_prev f_curr =
     (case (color_cluster f_curr, color_cluster f_prev) of
        (Some cur, Some prev) \<Rightarrow>
          if cur \<noteq> prev
          then set_metric ''color_cluster_jump'' (MStr (str_int prev @ arrow @ str_int cur))
                 (add_reason ''Perubahan Adegan (dari K-Means)'' f_curr)
          else f_curr
      | _ \<Rightarrow> f_curr)"

definition scene_pass :: "FrameInfo list \<Rightarrow> FrameInfo list" where
  "scene_pass fs = pairwise_pass scene_check fs"

subsection \<open>Duplicate frames\<close>

text \<open>
  The result \<^verbatim>\<open>dict\<close> of \<^verbatim>\<open>compare_sift_enhanced\<close>; \<open>None\<close> is an absent key.
\<close>

record sift_result =
  success :: bool
  good_matches :: "nat option"
  inliers :: "nat option"
  inlier_ratio :: "real option"
  visualization_path :: "string option"

definition sift_failure :: sift_result where
  "sift_failure =
     \<lparr>success = False, good_matches = None, inliers = None, inlier_ratio = None,
      visualization_path = None\<rparr>"

text \<open>
  \<^verbatim>\<open>compare_sift_enhanced\<close>. Every exception is caught and gives the failure result: the
  collaborator's \<open>None\<close>, and the unpacking \<^verbatim>\<open>for m, n in matches\<close> of an entry that has
  not exactly two matches.
\<close>

definition compare_sift_enhanced :: "Config \<Rightarrow> Env \<Rightarrow> string \<Rightarrow> string \<Rightarrow> sift_result" where
  "compare_sift_enhanced cfg env img_path1 img_path2 =
     (case (imread_gray env img_path1, imread_gray env img_path2) of
        (Some img1, Some img2) \<Rightarrow>
          (case sift_match env img_path1 img_path2 of
             None \<Rightarrow> sift_failure
           | Some cv \<Rightarrow>
               if \<not> des_found cv \<or> kp1 cv < 2 \<or> kp2 cv < 2 then sift_failure
               else if knn cv = [] \<or> (\<exists>m\<in>set (knn cv). length m < 2) then sift_failure
               else if (\<exists>m\<in>set (knn cv). length m \<noteq> 2) then sift_failure
               else
                 (let good = filter (\<lambda>m. m ! 0 < fmul env 0.75 (m ! 1)) (knn cv);
                      result = \<lparr>success = True, good_matches = Some (length good),
                                inliers = None, inlier_ratio = None,
                                visualization_path = None\<rparr>
                  in if length good > SIFT_MIN_MATCH_COUNT cfg then
                       (case ransac_mask cv of
                          None \<Rightarrow> result
                        | Some inlier_mask \<Rightarrow>
                            (let n_inliers = length (filter (\<lambda>b. b) inlier_mask) in
                             result\<lparr>inliers := Some n_inliers,
                                    inlier_ratio :=
                                      Some (if length good > 0
                                            then fdiv env (real n_inliers) (real (length good))
                                            else 0.0),
                                    visualization_path := Some (vis_path cv)\<rparr>))
                     else result))
      | _ \<Rightarrow> sift_failure)"

text \<open>\<^verbatim>\<open>hash_map = defaultdict(list)\<close>, filled in frame order.\<close>

definition hash_map_add ::
  "(string \<times> nat list) list \<Rightarrow> string \<Rightarrow> nat \<Rightarrow> (string \<times> nat list) list" where
  "hash_map_add hm h i = AList.update h (dict_get hm h [] @ [i]) hm"

definition build_hash_map :: "FrameInfo list \<Rightarrow> (string \<times> nat list) list" where
  "build_hash_map fs =
     foldl (\<lambda>hm f. if hash_truthy f then hash_map_add hm (the (hash f)) (index f) else hm)
       [] fs"

definition dup_candidates :: "(string \<times> nat list) list \<Rightarrow> (string \<times> nat list) list" where
  "dup_candidates hm = filter (\<lambda>(k, v). length v > 1) hm"

text \<open>
  The pairs \<^verbatim>\<open>(indices[0], indices[i])\<close> the two nested loops visit, in their order.
\<close>

definition dup_pairs :: "(string \<times> nat list) list \<Rightarrow> (nat \<times> nat) list" where
  "dup_pairs cands =
     concat (map (\<lambda>(hash_val, indices).
                    map (\<lambda>i. (indices ! 0, indices ! i)) [1..<length indices]) cands)"

definition mark_duplicate ::
  "Env \<Rightarrow> nat \<Rightarrow> real \<Rightarrow> nat \<Rightarrow> nat \<Rightarrow> real \<Rightarrow> string option \<Rightarrow> FrameInfo \<Rightarrow> FrameInfo" where
  "mark_duplicate env idx1 ssim_val n_inliers n_good ratio vis f_dup =
     (let f1 = add_reason (''Duplikasi dari frame '' @ str_nat idx1)
                 (f_dup\<lparr>frame_type := anomaly_duplication\<rparr>);
          f2 = set_metric ''sift_inlier_ratio'' (MNum (fround env ratio 3))
                 (set_metric ''sift_good_matches'' (MNum (real n_good))
                   (set_metric ''sift_inliers'' (MNum (real n_inliers))
                     (set_metric ''ssim_to_source'' (MNum (fround env ssim_val 4))
                       (set_metric ''source_frame'' (MNum (real idx1)) f1))))
      in case vis of
           None \<Rightarrow> f2
         | Some p \<Rightarrow>
             if p \<noteq> [] then f2\<lparr>evidence_obj := (evidence_obj f2)\<lparr>sift_path := Some p\<rparr>\<rparr>
             else f2)"

text \<open>
  The body of the inner loop for one pair. \<^verbatim>\<open>frames[idx]\<close> raises \<^verbatim>\<open>IndexError\<close> out
  of range, and \<^verbatim>\<open>sift_result['inliers']\<close> raises \<^verbatim>\<open>KeyError\<close> when the key is absent.
  \<^verbatim>\<open>structural_similarity\<close> is taken as total.
\<close>

definition verify_pair ::
  "Config \<Rightarrow> Env \<Rightarrow> nat \<Rightarrow> nat \<Rightarrow> FrameInfo list \<Rightarrow> py_error + FrameInfo list" where
  "verify_pair cfg env idx1 idx2 fs =
     (if idx1 \<ge> length fs \<or> idx2 \<ge> length fs then Inl IndexError
      else
        (let p1 = img_path_original (fs ! idx1);
             p2 = img_path_original (fs ! idx2)
         in case (imread_gray env p1, imread_gray env p2) of
              (Some im1, Some im2) \<Rightarrow>
                if shape im1 \<noteq> shape im2 then Inr fs
                else
                  (let data_range = real (img_max im1 - img_min im1) in
                   if data_range = 0 then Inr fs
                   else
                     (let ssim_val = ssim env im1 im2 data_range in
                      if ssim_val > DUPLICATION_SSIM_CONFIRM cfg then
                        (let sift_result = compare_sift_enhanced cfg env p1 p2 in
                         if success sift_result
                            \<and> (case inliers sift_result of None \<Rightarrow> 0 | Some k \<Rightarrow> k)
                                \<ge> SIFT_MIN_MATCH_COUNT cfg
                         then
                           (case (inliers sift_result, good_matches sift_result,
                                  inlier_ratio sift_result) of
                              (Some n_inliers, Some n_good, Some ratio) \<Rightarrow>
                                Inr (fs[idx2 :=
                                       mark_duplicate env idx1 ssim_val n_inliers n_good ratio
                                         (visualization_path sift_result) (fs ! idx2)])
                            | _ \<Rightarrow> Inl KeyError)
                         else Inr fs)
                      else Inr fs))
            | _ \<Rightarrow> Inr fs))"

fun verify_pairs ::
  "Config \<Rightarrow> Env \<Rightarrow> (nat \<times> nat) list \<Rightarrow> FrameInfo list \<Rightarrow> py_error + FrameInfo list" where
  "verify_pairs cfg env [] fs = Inr fs"
| "verify_pairs cfg env ((idx1, idx2) # rest) fs =
     (case verify_pair cfg env idx1 idx2 fs of
        Inl err \<Rightarrow> Inl err
      | Inr fs' \<Rightarrow> verify_pairs cfg env rest fs')"

definition duplication_pass :: "Config \<Rightarrow> Env \<Rightarrow> FrameInfo list \<Rightarrow> py_error + FrameInfo list" where
  "duplication_pass cfg env fs =
     verify_pairs cfg env (dup_pairs (dup_candidates (build_hash_map fs))) fs"

subsection \<open>Regional analysis of the ELA array (\<^verbatim>\<open>analyze_ela_regions\<close>)\<close>

text \<open>
  A suspicious region and the result \<^verbatim>\<open>dict\<close>. (The standard deviation the program also
  stores is never read and is left out.)
\<close>

record ela_region =
  region_x :: nat
  region_y :: nat
  region_width :: nat
  region_height :: nat
  mean_ela :: real
  max_ela :: nat
  suspicion_level :: string

record regional_analysis =
  total_regions :: nat
  suspicious_regions :: "ela_region list"
  suspicious_count :: nat
  grid_size :: nat

text \<open>\<^verbatim>\<open>range(0, n, g)\<close> for a positive step \<open>g\<close>.\<close>

definition range_step :: "nat \<Rightarrow> nat \<Rightarrow> nat list" where
  "range_step n g = map (\<lambda>k. k * g) [0..<(n + g - 1) div g]"

text \<open>
  The values of \<^verbatim>\<open>ela_array[y:min(y+g, height), x:min(x+g, width)]\<close>, over all
  channels.
\<close>

definition region_values :: "ela_array \<Rightarrow> nat \<Rightarrow> nat \<Rightarrow> nat \<Rightarrow> nat list" where
  "region_values a y x g =
     (let (height, width) = shape a in
      concat (concat (map (\<lambda>row. take (min (x + g) width - x) (drop x row))
                        (take (min (y + g) height - y) (drop y a)))))"

definition mean_val :: "nat list \<Rightarrow> real" where
  "mean_val vs = real (sum_list vs) / real (length vs)"

definition max_val :: "nat list \<Rightarrow> nat" where
  "max_val vs = fold max vs 0"

definition region_suspicious :: "ela_array \<Rightarrow> nat \<Rightarrow> nat \<times> nat \<Rightarrow> bool" where
  "region_suspicious a g = (\<lambda>(y, x).
     (let region = region_values a y x g in
      region \<noteq> [] \<and> (mean_val region > 30 \<or> max_val region > 100)))"

definition grid_cells :: "ela_array \<Rightarrow> nat \<Rightarrow> (nat \<times> nat) list" where
  "grid_cells a g =
     (let (height, width) = shape a in
      concat (map (\<lambda>y. map (\<lambda>x. (y, x)) (range_step width g)) (range_step height g)))"

definition analyze_ela_regions :: "ela_array \<Rightarrow> nat \<Rightarrow> regional_analysis" where
  "analyze_ela_regions a g =
     (let (height, width) = shape a;
          found = map (\<lambda>(y, x).
                    (let region = region_values a y x g in
                     \<lparr>region_x = x, region_y = y,
                      region_width = min g (width - x),
                      region_height = min g (height - y),
                      mean_ela = mean_val region,
                      max_ela = max_val region,
                      suspicion_level = (if mean_val region > 50 then ''high'' else ''medium'')\<rparr>))
                    (filter (region_suspicious a g) (grid_cells a g))
      in \<lparr>total_regions = (height div g) * (width div g),
          suspicious_regions = found,
          suspicious_count = length found,
          grid_size = g\<rparr>)"

subsection \<open>Classification and the ELA check of one frame\<close>

abbreviation ELA_REASON :: string where "ELA_REASON \<equiv> ''Anomali Kompresi (ELA)''"

definition count_confidence :: "FrameInfo \<Rightarrow> string" where
  "count_confidence f =
     (let num_reasons = length (reasons (evidence_obj f)) in
      if frame_type f = anomaly_duplication \<or> frame_type f = anomaly_insertion
      then SANGAT_TINGGI
      else if num_reasons > 2 then TINGGI
      else if num_reasons > 1 then SEDANG
      else RENDAH)"

definition ela_check :: "Env \<Rightarrow> FrameInfo \<Rightarrow> FrameInfo" where
  "ela_check env f =
     (case perform_ela env (img_path_original f) of
        None \<Rightarrow> f
      | Some (ela_p, max_diff, arr) \<Rightarrow>
          (let f1 = f\<lparr>evidence_obj := (evidence_obj f)\<lparr>ela_path := Some ela_p\<rparr>\<rparr>;
               regional = analyze_ela_regions arr 50
           in if suspicious_count regional > 0 then
                (let f2 = (if ELA_REASON \<notin> set (reasons (evidence_obj f1))
                           then add_reason ELA_REASON f1 else f1);
                     f3 = set_metric ''ela_suspicious_regions''
                            (MNum (real (suspicious_count regional)))
                            (set_metric ''ela_max_difference'' (MNum (real max_diff)) f2)
                 in if suspicious_count regional > 5 then
                      (if confidence (evidence_obj f3) = SEDANG then set_confidence TINGGI f3
                       else if confidence (evidence_obj f3) = TINGGI
                       then set_confidence SANGAT_TINGGI f3
                       else f3)
                    else f3)
              else f1))"

definition synthesize_frame :: "Env \<Rightarrow> FrameInfo \<Rightarrow> FrameInfo" where
  "synthesize_frame env f =
     (if reasons (evidence_obj f) \<noteq> [] then
        (let f1 = (if frame_type f = original
                   then f\<lparr>frame_type := anomaly_discontinuity\<rparr> else f);
             f2 = set_confidence (count_confidence f1) f1
         in if confidence (evidence_obj f2) \<in> set [SEDANG, TINGGI, SANGAT_TINGGI]
               \<and> frame_type f2 \<notin> set [anomaly_duplication, anomaly_insertion]
            then ela_check env f2
            else f2)
      else f)"

text \<open>
  \<^verbatim>\<open>reasons = ", ".join(sorted(list(set(reasons))))\<close> for a non-empty list: the joined
  text is represented by the list of its tags, sorted and without repetition.
\<close>

definition join_reasons :: "FrameInfo \<Rightarrow> FrameInfo" where
  "join_reasons f =
     (if reasons (evidence_obj f) \<noteq> []
      then f\<lparr>evidence_obj := (evidence_obj f)\<lparr>reasons := sort (remdups (reasons (evidence_obj f)))\<rparr>\<rparr>
      else f)"

subsection \<open>The stage\<close>

text \<open>\<^verbatim>\<open>Counter\<close>: \<^verbatim>\<open>c[k] += 1\<close>.\<close>

definition counter_add :: "(string \<times> nat) list \<Rightarrow> string \<Rightarrow> (string \<times> nat) list" where
  "counter_add c k = AList.update k (dict_get c k 0 + 1) c"

definition confidence_levels :: "FrameInfo list \<Rightarrow> (string \<times> nat) list" where
  "confidence_levels fs =
     foldl counter_add [] (map (\<lambda>f. confidence (evidence_obj f)) (filter is_anomaly fs))"

definition run_tahap_3_sintesis_bukti ::
  "Config \<Rightarrow> Env \<Rightarrow> AnalysisResult \<Rightarrow> py_error + AnalysisResult" where
  "run_tahap_3_sintesis_bukti cfg env result =
     (if length (frames result) < 2 then Inr result
      else
        (let fs1 = flow_pass cfg env (frames result);
             fs2 = ssim_pass cfg env fs1;
             fs3 = scene_pass fs2
         in case duplication_pass cfg env fs3 of
              Inl err \<Rightarrow> Inl err
            | Inr fs4 \<Rightarrow>
                (let fs5 = map (synthesize_frame env) fs4;
                     fs6 = map join_reasons fs5
                 in Inr (result\<lparr>frames := fs6,
                                 confidence_distribution := confidence_levels fs6\<rparr>))))"

section \<open>Event severity (\<^verbatim>\<open>calculate_event_severity\<close>)\<close>

definition type_severity :: "(string \<times> real) list" where
  "type_severity =
     [(anomaly_insertion, 0.8), (anomaly_duplication, 0.6), (anomaly_discontinuity, 0.5)]"

definition confidence_multiplier :: "(string \<times> real) list" where
  "confidence_multiplier =
     [(SANGAT_TINGGI, 1.2), (TINGGI, 1.0), (SEDANG, 0.8), (RENDAH, 0.6), (NA, 0.5)]"

definition calculate_event_severity :: "loc_event \<Rightarrow> real" where
  "calculate_event_severity e =
     (let severity = dict_get type_severity (event e) 0.3;
          severity = severity * dict_get confidence_multiplier (ev_confidence e) 0.5;
          dur = (case duration e of None \<Rightarrow> 0 | Some d \<Rightarrow> d);
          severity = (if dur > 5.0 then severity * 1.2
                      else if dur > 2.0 then severity * 1.1 else severity);
          severity = (if frame_count e > 10 then severity * 1.1 else severity)
      in min 1.0 (max 0.0 severity))"

text \<open>
  The post-scan step of stage 4 that stores duration and severity in the event:
  \<^verbatim>\<open>loc['duration'] = loc['end_ts'] - loc['start_ts']\<close> is a subtraction of floats.
\<close>

definition score_event :: "Env \<Rightarrow> loc_event \<Rightarrow> loc_event" where
  "score_event env loc =
     (let loc1 = loc\<lparr>duration := Some (fsub env (end_ts loc) (start_ts loc))\<rparr>
      in loc1\<lparr>severity_score := Some (calculate_event_severity loc1)\<rparr>)"

text \<open>The severity formula in the words of the specification, to compare with.\<close>

definition spec_base :: "string \<Rightarrow> real" where
  "spec_base t =
     (if t = anomaly_insertion then 0.8
      else if t = anomaly_duplication then 0.6
      else if t = anomaly_discontinuity then 0.5 else 0.3)"

definition spec_confidence_multiplier :: "string \<Rightarrow> real" where
  "spec_confidence_multiplier c =
     (if c = SANGAT_TINGGI then 1.2
      else if c = TINGGI then 1.0
      else if c = SEDANG then 0.8
      else if c = RENDAH then 0.6 else 0.5)"

definition spec_duration_bonus :: "real \<Rightarrow> real" where
  "spec_duration_bonus d = (if d > 5 then 1.2 else if d > 2 then 1.1 else 1)"

definition spec_count_bonus :: "nat \<Rightarrow> real" where
  "spec_count_bonus n = (if n > 10 then 1.1 else 1)"

definition spec_severity :: "string \<Rightarrow> string \<Rightarrow> real \<Rightarrow> nat \<Rightarrow> real" where
  "spec_severity t c d n =
     min 1 (max 0 (spec_base t * spec_confidence_multiplier c
                   * spec_duration_bonus d * spec_count_bonus n))"

section \<open>Event localization (stage 4, \<^verbatim>\<open>run_tahap_4_visualisasi_dan_penilaian\<close>)\<close>

definition conf_hierarchy :: "(string \<times> nat) list" where
  "conf_hierarchy = [(SANGAT_TINGGI, 4), (TINGGI, 3), (SEDANG, 2), (RENDAH, 1), (NA, 0)]"

definition new_event :: "FrameInfo \<Rightarrow> loc_event" where
  "new_event f =
     \<lparr>event = frame_type f,
      start_frame = index f,
      end_frame = index f,
      start_ts = timestamp f,
      end_ts = timestamp f,
      frame_count = 1,
      ev_confidence = confidence (evidence_obj f),
      ev_reasons = reasons (evidence_obj f),
      ev_metrics = metrics (evidence_obj f),
      all_metrics = [metrics (evidence_obj f)],
      ev_image = img_path_original f,
      ev_ela_path = ela_path (evidence_obj f),
      ev_sift_path = sift_path (evidence_obj f),
      duration = None,
      severity_score = None\<rparr>"

definition extend_event :: "loc_event \<Rightarrow> FrameInfo \<Rightarrow> loc_event" where
  "extend_event e f =
     e\<lparr>end_frame := index f,
       end_ts := timestamp f,
       frame_count := frame_count e + 1,
       ev_confidence :=
         (if dict_get conf_hierarchy (confidence (evidence_obj f)) 0
               > dict_get conf_hierarchy (ev_confidence e) 0
          then confidence (evidence_obj f) else ev_confidence e),
       all_metrics := all_metrics e @ [metrics (evidence_obj f)]\<rparr>"

text \<open>
  The scan: \<open>locs\<close> is the list of closed events, \<open>ev\<close> the open event (\<open>None\<close> when
  there is none). The last equation is the code after the loop.
\<close>

fun localize_loop ::
  "loc_event list \<Rightarrow> loc_event option \<Rightarrow> FrameInfo list \<Rightarrow> loc_event list" where
  "localize_loop locs ev [] = (case ev of None \<Rightarrow> locs | Some e \<Rightarrow> locs @ [e])"
| "localize_loop locs ev (f # fs) =
     (if is_anomaly f then
        (case ev of
           Some e \<Rightarrow>
             if event e = frame_type f \<and> index f = end_frame e + 1
             then localize_loop locs (Some (extend_event e f)) fs
             else localize_loop (locs @ [e]) (Some (new_event f)) fs
         | None \<Rightarrow> localize_loop locs (Some (new_event f)) fs)
      else
        (case ev of
           Some e \<Rightarrow> localize_loop (locs @ [e]) None fs
         | None \<Rightarrow> localize_loop locs None fs))"

text \<open>
  The events of a frame sequence, scored. (The per-metric mean, minimum, maximum and
  standard deviation that stage 4 also stores are report data and are left out.)
\<close>

definition localize :: "Env \<Rightarrow> FrameInfo list \<Rightarrow> loc_event list" where
  "localize env fs = map (score_event env) (localize_loop [] None fs)"

definition run_tahap_4_localization :: "Env \<Rightarrow> AnalysisResult \<Rightarrow> AnalysisResult" where
  "run_tahap_4_localization env result =
     result\<lparr>localizations := localize env (frames result)\<rparr>"

text \<open>The frames of \<open>fs\<close> whose index lies between the start and the end of an event.\<close>

definition members :: "loc_event \<Rightarrow> FrameInfo list \<Rightarrow> FrameInfo list" where
  "members e fs = filter (\<lambda>f. start_frame e \<le> index f \<and> index f \<le> end_frame e) fs"

section \<open>FERM (\<^verbatim>\<open>generate_forensic_evidence_matrix\<close>)\<close>

subsection \<open>False-positive assessment\<close>

definition false_positive_risks :: "(string \<times> real) list" where
  "false_positive_risks =
     [(SANGAT_TINGGI, 0.05), (TINGGI, 0.15), (SEDANG, 0.30), (RENDAH, 0.50)]"

text \<open>
  The argument is \<^verbatim>\<open>result.confidence_distribution\<close>, the histogram of confidence labels
  over the anomalous frames that stage 3 stores; an empty \<^verbatim>\<open>dict\<close> is falsy.
\<close>

definition weighted_fp_risk :: "(string \<times> nat) list \<Rightarrow> real" where
  "weighted_fp_risk cd =
     (if cd \<noteq> [] then
        (if sum_list (map snd cd) > 0
         then sum_list (map (\<lambda>(level, count). real count * dict_get false_positive_risks level 0.5) cd)
              / real (sum_list (map snd cd))
         else 0.5)
      else 0.25)"

definition reliability_score :: "(string \<times> nat) list \<Rightarrow> real" where
  "reliability_score cd = 1.0 - weighted_fp_risk cd"

subsection \<open>Technical severity of one anomalous frame\<close>

definition confidence_severity :: "(string \<times> real) list" where
  "confidence_severity =
     [(SANGAT_TINGGI, 0.9), (TINGGI, 0.7), (SEDANG, 0.5), (RENDAH, 0.3), (NA, 0.1)]"

text \<open>
  \<^verbatim>\<open>if key in metrics: severity += g(metrics[key])\<close>. Arithmetic on a text value raises
  \<^verbatim>\<open>TypeError\<close>.
\<close>

definition add_metric ::
  "metrics_dict \<Rightarrow> string \<Rightarrow> (real \<Rightarrow> real) \<Rightarrow> real \<Rightarrow> py_error + real" where
  "add_metric m key g severity =
     (case map_of m key of
        None \<Rightarrow> Inr severity
      | Some (MNum x) \<Rightarrow> Inr (severity + g x)
      | Some (MStr s) \<Rightarrow> Inl TypeError)"

definition frame_severity :: "FrameInfo \<Rightarrow> py_error + real" where
  "frame_severity f =
     (let m = metrics (evidence_obj f) in
      case add_metric m ''ssim_drop'' (\<lambda>x. min 1.0 (x * 2)) 0.0 of
        Inl err \<Rightarrow> Inl err
      | Inr s1 \<Rightarrow>
      (case add_metric m ''optical_flow_z_score'' (\<lambda>x. min 1.0 (\<bar>x\<bar> / 10.0)) s1 of
        Inl err \<Rightarrow> Inl err
      | Inr s2 \<Rightarrow>
      (case add_metric m ''sift_inlier_ratio'' (\<lambda>x. x) s2 of
        Inl err \<Rightarrow> Inl err
      | Inr s3 \<Rightarrow>
      (case add_metric m ''ela_max_difference'' (\<lambda>x. min 1.0 (x / 200.0)) s3 of
        Inl err \<Rightarrow> Inl err
      | Inr s4 \<Rightarrow>
          Inr (if m \<noteq> []
               then (if length m > 0 then min 1.0 (s4 / real (length m)) else 0.0)
               else dict_get confidence_severity (confidence (evidence_obj f)) 0.3)))))"

text \<open>
  The severity formula in the words of the specification: the sum of the recognized
  metrics that are present, each normalized, divided by a count \<open>n\<close>, and clamped to at
  most 1. \<open>recognized_count\<close> counts the recognized metrics that are present.
\<close>

definition num_metric :: "metrics_dict \<Rightarrow> string \<Rightarrow> real option" where
  "num_metric m key = (case map_of m key of Some (MNum x) \<Rightarrow> Some x | _ \<Rightarrow> None)"

definition spec_term :: "real option \<Rightarrow> (real \<Rightarrow> real) \<Rightarrow> real" where
  "spec_term v g = (case v of None \<Rightarrow> 0 | Some x \<Rightarrow> g x)"

definition spec_frame_severity :: "metrics_dict \<Rightarrow> nat \<Rightarrow> real" where
  "spec_frame_severity m n =
     min 1 ((spec_term (num_metric m ''ssim_drop'') (\<lambda>x. x * 2)
             + spec_term (num_metric m ''optical_flow_z_score'') (\<lambda>x. \<bar>x\<bar> / 10)
             + spec_term (num_metric m ''sift_inlier_ratio'') (\<lambda>x. x)
             + spec_term (num_metric m ''ela_max_difference'') (\<lambda>x. x / 200)) / real n)"

definition recognized_count :: "metrics_dict \<Rightarrow> nat" where
  "recognized_count m =
     length (filter (\<lambda>k. map_of m k \<noteq> None)
       [''ssim_drop'', ''optical_flow_z_score'', ''sift_inlier_ratio'', ''ela_max_difference''])"

section \<open>Predicates and values used in the theorems\<close>

subsection \<open>Runs of frames behind an event\<close>

text \<open>
  \<open>good_run mem e\<close>: the frames \<open>mem\<close> are what the event \<open>e\<close> records: consecutive
  indices from its start to its end, all anomalous and of its type, counted by
  \<open>frame_count\<close>. \<open>closed_run fs e\<close>: such a run stands somewhere in \<open>fs\<close>;
  \<open>open_run fs e\<close>: it is the end of \<open>fs\<close>.
\<close>

definition good_run :: "FrameInfo list \<Rightarrow> loc_event \<Rightarrow> bool" where
  "good_run mem e \<longleftrightarrow>
     mem \<noteq> [] \<and> start_frame e \<le> end_frame e
     \<and> map index mem = [start_frame e..<Suc (end_frame e)]
     \<and> (\<forall>f\<in>set mem. frame_type f = event e \<and> is_anomaly f)
     \<and> frame_count e = length mem \<and> length (all_metrics e) = length mem"

definition closed_run :: "FrameInfo list \<Rightarrow> loc_event \<Rightarrow> bool" where
  "closed_run fs e \<longleftrightarrow> (\<exists>pre mem post. fs = pre @ mem @ post \<and> good_run mem e)"

definition open_run :: "FrameInfo list \<Rightarrow> loc_event \<Rightarrow> bool" where
  "open_run fs e \<longleftrightarrow> (\<exists>pre mem. fs = pre @ mem \<and> good_run mem e)"

subsection \<open>Events that cover a frame, events that could have been one\<close>

text \<open>
  \<open>covers e f\<close>: the frame \<open>f\<close> has the type of the event \<open>e\<close> and its index lies in
  the event. \<open>mergeable e1 e2\<close>: the event \<open>e2\<close> has the type of \<open>e1\<close> and starts right
  after its end. \<open>separated es\<close>: no two neighbours in \<open>es\<close> are mergeable.
  \<open>scan_inv\<close> is the invariant of the scan with the frames \<open>fs\<close> still to come.
\<close>

definition covers :: "loc_event \<Rightarrow> FrameInfo \<Rightarrow> bool" where
  "covers e f \<longleftrightarrow> event e = frame_type f \<and> start_frame e \<le> index f \<and> index f \<le> end_frame e"

definition mergeable :: "loc_event \<Rightarrow> loc_event \<Rightarrow> bool" where
  "mergeable e1 e2 \<longleftrightarrow> event e1 = event e2 \<and> start_frame e2 = end_frame e1 + 1"

fun separated :: "loc_event list \<Rightarrow> bool" where
  "separated [] = True"
| "separated [e] = True"
| "separated (e1 # e2 # es) = (\<not> mergeable e1 e2 \<and> separated (e2 # es))"

definition scan_inv :: "loc_event list \<Rightarrow> loc_event option \<Rightarrow> FrameInfo list \<Rightarrow> bool" where
  "scan_inv locs ev fs \<longleftrightarrow>
     (case ev of
        Some e \<Rightarrow> separated (locs @ [e]) \<and> (\<forall>f\<in>set fs. end_frame e < index f)
      | None \<Rightarrow> separated locs \<and> (locs \<noteq> [] \<longrightarrow> (\<forall>f\<in>set fs. end_frame (last locs) + 1 < index f)))"

subsection \<open>False-positive risk in the words of the specification\<close>

definition spec_fp_risk :: "nat \<Rightarrow> nat \<Rightarrow> nat \<Rightarrow> nat \<Rightarrow> real" where
  "spec_fp_risk vh hi me lo =
     (real vh * 0.05 + real hi * 0.15 + real me * 0.30 + real lo * 0.50)
     / real (vh + hi + me + lo)"

subsection \<open>Frame severity\<close>

text \<open>
  A normalized metric capped at 1, as the program adds it; \<open>numeric_at m key\<close>: the
  entry of \<open>key\<close>, if there is one, is a number; the fallback constants by confidence
  label.
\<close>

definition capped_term :: "real option \<Rightarrow> (real \<Rightarrow> real) \<Rightarrow> real" where
  "capped_term v g = (case v of None \<Rightarrow> 0 | Some x \<Rightarrow> min 1 (g x))"

definition numeric_at :: "metrics_dict \<Rightarrow> string \<Rightarrow> bool" where
  "numeric_at m key = (case map_of m key of Some (MStr s) \<Rightarrow> False | _ \<Rightarrow> True)"

definition fallback_severity :: "string \<Rightarrow> real" where
  "fallback_severity c =
     (if c = SANGAT_TINGGI then 0.9 else if c = TINGGI then 0.7 else if c = SEDANG then 0.5
      else if c = RENDAH then 0.3 else if c = NA then 0.1 else 0.3)"

subsection \<open>Stage 3: tiers, confirmation of a pair, frames that keep their identity\<close>

text \<open>
  \<open>base_tier k\<close>: the confidence label for \<open>k\<close> reasons; \<open>next_tier\<close>: one tier up from
  MEDIUM or HIGH. \<open>ela_suspicious env f\<close>: the number of suspicious grid cells of the
  frame's ELA array (0 when \<^verbatim>\<open>perform_ela\<close> fails).

  \<open>pair_confirmed cfg env p1 p2\<close>: the duplicate verifier confirms the pair of images at
  the paths \<open>p1\<close> (source) and \<open>p2\<close>: both load, their shapes agree, the source is not
  uniform, the SSIM exceeds the threshold, and the matcher succeeds with at least the
  minimum number of inliers. \<open>pair_confirmation\<close> gives the values the verifier then
  records, and \<open>verified_frame\<close> the later frame after the check.

  \<open>frames_indexed fs\<close>: every frame's index is its position, as stage 1 numbers the
  frames when no frame fails to load. \<open>first_same_hash fs j i\<close>: frame \<open>i\<close> has a
  hash, and \<open>j\<close> is the first frame with the same hash, before \<open>i\<close>.
  \<open>keeps_identity f g\<close>: \<open>g\<close> is \<open>f\<close> with more evidence: same index, hash, image,
  type and confidence, reasons only appended.
\<close>

definition base_tier :: "nat \<Rightarrow> string" where
  "base_tier k = (if k > 2 then TINGGI else if k > 1 then SEDANG else RENDAH)"

definition next_tier :: "string \<Rightarrow> string" where
  "next_tier c = (if c = SEDANG then TINGGI else if c = TINGGI then SANGAT_TINGGI else c)"

definition ela_suspicious :: "Env \<Rightarrow> FrameInfo \<Rightarrow> nat" where
  "ela_suspicious env f =
     (case perform_ela env (img_path_original f) of
        None \<Rightarrow> 0
      | Some (p, max_diff, arr) \<Rightarrow>
          length (filter (region_suspicious arr 50) (grid_cells arr 50)))"

definition pair_confirmation ::
  "Config \<Rightarrow> Env \<Rightarrow> string \<Rightarrow> string \<Rightarrow> (real \<times> nat \<times> nat \<times> real \<times> string option) option" where
  "pair_confirmation cfg env p1 p2 =
     (case (imread_gray env p1, imread_gray env p2) of
        (Some im1, Some im2) \<Rightarrow>
          if shape im1 \<noteq> shape im2 \<or> img_max im1 - img_min im1 = 0 then None
          else
            (let s = ssim env im1 im2 (real (img_max im1 - img_min im1));
                 r = compare_sift_enhanced cfg env p1 p2
             in if s > DUPLICATION_SSIM_CONFIRM cfg \<and> success r
                   \<and> (case inliers r of None \<Rightarrow> 0 | Some k \<Rightarrow> k) \<ge> SIFT_MIN_MATCH_COUNT cfg
                then (case (inliers r, good_matches r, inlier_ratio r) of
                        (Some a, Some b, Some c) \<Rightarrow> Some (s, a, b, c, visualization_path r)
                      | _ \<Rightarrow> None)
                else None)
      | _ \<Rightarrow> None)"

definition verified_frame :: "Config \<Rightarrow> Env \<Rightarrow> nat \<Rightarrow> string \<Rightarrow> FrameInfo \<Rightarrow> FrameInfo" where
  "verified_frame cfg env idx1 p1 f2 =
     (case pair_confirmation cfg env p1 (img_path_original f2) of
        None \<Rightarrow> f2
      | Some (s, a, b, c, v) \<Rightarrow> mark_duplicate env idx1 s a b c v f2)"

definition frames_indexed :: "FrameInfo list \<Rightarrow> bool" where
  "frames_indexed fs \<longleftrightarrow> map index fs = [0..<length fs]"

definition hash_positions :: "FrameInfo list \<Rightarrow> string \<Rightarrow> nat list" where
  "hash_positions fs h =
     filter (\<lambda>p. hash_truthy (fs ! p) \<and> hash (fs ! p) = Some h) [0..<length fs]"

definition pair_confirmed :: "Config \<Rightarrow> Env \<Rightarrow> string \<Rightarrow> string \<Rightarrow> bool" where
  "pair_confirmed cfg env p1 p2 =
     (case (imread_gray env p1, imread_gray env p2) of
        (Some im1, Some im2) \<Rightarrow>
          shape im1 = shape im2 \<and> img_max im1 - img_min im1 \<noteq> 0
          \<and> ssim env im1 im2 (real (img_max im1 - img_min im1)) > DUPLICATION_SSIM_CONFIRM cfg
          \<and> success (compare_sift_enhanced cfg env p1 p2)
          \<and> (case inliers (compare_sift_enhanced cfg env p1 p2) of None \<Rightarrow> 0 | Some k \<Rightarrow> k)
              \<ge> SIFT_MIN_MATCH_COUNT cfg
      | _ \<Rightarrow> False)"

definition keeps_identity :: "FrameInfo \<Rightarrow> FrameInfo \<Rightarrow> bool" where
  "keeps_identity f g \<longleftrightarrow>
     index g = index f \<and> hash g = hash f \<and> img_path_original g = img_path_original f
     \<and> frame_type g = frame_type f
     \<and> confidence (evidence_obj g) = confidence (evidence_obj f)
     \<and> (\<exists>added. reasons (evidence_obj g) = reasons (evidence_obj f) @ added)"

definition first_same_hash :: "FrameInfo list \<Rightarrow> nat \<Rightarrow> nat \<Rightarrow> bool" where
  "first_same_hash fs j i \<longleftrightarrow>
     hash_truthy (fs ! i) \<and> j < i \<and> hash (fs ! j) = hash (fs ! i)
     \<and> hash (fs ! i) \<notin> set (map hash (take j fs))"

subsection \<open>Example inputs\<close>

definition empty_evidence :: Evidence where
  "empty_evidence =
     \<lparr>reasons = [], metrics = [], confidence = NA, ela_path = None, sift_path = None\<rparr>"

text \<open>
  A frame as stage 1 creates it at 8 frames per second, with the values stage 2 computes
  from the images.
\<close>

definition mk_frame ::
  "nat \<Rightarrow> string \<Rightarrow> real option \<Rightarrow> real option \<Rightarrow> int option \<Rightarrow> FrameInfo" where
  "mk_frame i h s fl c =
     \<lparr>index = i, timestamp = real i / 8, img_path_original = ''orig_'' @ str_nat i,
      img_path = ''norm_'' @ str_nat i, hash = Some h, frame_type = original,
      ssim_to_prev = s, optical_flow_mag = fl, color_cluster = c,
      evidence_obj = empty_evidence\<rparr>"

definition mk_result :: "FrameInfo list \<Rightarrow> AnalysisResult" where
  "mk_result fs = \<lparr>frames = fs, confidence_distribution = [], localizations = []\<rparr>"

text \<open>
  An environment without images whose floating-point unit computes exactly. The numbers
  of the examples below are doubles with few binary digits; on them the program's
  operations are exact too, and \<^verbatim>\<open>round\<close> returns its argument.
\<close>

definition exact_env :: Env where
  "exact_env =
     \<lparr>imread_gray = (\<lambda>p. None), ssim = (\<lambda>im1 im2 data_range. 0),
      sift_match = (\<lambda>p1 p2. None), perform_ela = (\<lambda>p. None),
      fadd = (\<lambda>x y. x + y), fsub = (\<lambda>x y. x - y), fmul = (\<lambda>x y. x * y),
      fdiv = (\<lambda>x y. x / y), fround = (\<lambda>x nd. x)\<rparr>"

text \<open>
  An event of the twelve inserted frames 4 to 15 at 4 frames per second, as the scan
  leaves it: from 1.0 s to 3.75 s.
\<close>

definition ex_event :: loc_event where
  "ex_event =
     \<lparr>event = anomaly_insertion, start_frame = 4, end_frame = 15, start_ts = 1,
      end_ts = 3.75, frame_count = 12, ev_confidence = SANGAT_TINGGI,
      ev_reasons = [''Frame tidak ada di baseline''], ev_metrics = [],
      all_metrics = replicate 12 [], ev_image = ''orig_4'', ev_ela_path = None,
      ev_sift_path = None, duration = None, severity_score = None\<rparr>"

text \<open>
  A discontinuity frame with an SSIM drop of 0.8 and an optical-flow z-score of 6.
\<close>

definition ex_severity_frame :: FrameInfo where
  "ex_severity_frame =
     (mk_frame 7 ''c3'' (Some 0.1) (Some 9) (Some 0))
       \<lparr>frame_type := anomaly_discontinuity,
        evidence_obj :=
          \<lparr>reasons = [''Lonjakan Aliran Optik'', ''Penurunan Drastis SSIM''],
           metrics = [(''optical_flow_z_score'', MNum 6), (''ssim_drop'', MNum 0.8)],
           confidence = SEDANG, ela_path = None, sift_path = None\<rparr>\<rparr>"

text \<open>
  An inserted frame as stage 2 marks it: one reason, no metric, confidence VERY_HIGH.
\<close>

definition ex_inserted :: FrameInfo where
  "ex_inserted = mark_insertion (mk_frame 3 ''d4'' (Some 1) (Some 0) (Some 0))"

text \<open>
  Five frames: 1 and 2 are anomalous and contiguous, 4 is anomalous after the
  unflagged frame 3.
\<close>

definition ex_flagged :: "nat \<Rightarrow> FrameInfo" where
  "ex_flagged i =
     (mk_frame i (str_nat i) (Some 0.5) (Some 1) (Some 0))
       \<lparr>frame_type := anomaly_discontinuity,
        evidence_obj := empty_evidence\<lparr>reasons := [''SSIM Sangat Rendah''],
                                        confidence := RENDAH\<rparr>\<rparr>"

definition ex_scan :: "FrameInfo list" where
  "ex_scan =
     [mk_frame 0 ''0'' (Some 1) (Some 0) (Some 0), ex_flagged 1, ex_flagged 2,
      mk_frame 3 ''3'' (Some 1) (Some 1) (Some 0), ex_flagged 4]"

text \<open>
  The frames of a stage's result; \<open>None\<close> when the stage raised.
\<close>

definition stage_frames :: "py_error + AnalysisResult \<Rightarrow> FrameInfo list option" where
  "stage_frames x = (case x of Inl err \<Rightarrow> None | Inr r \<Rightarrow> Some (frames r))"

text \<open>
  Four frames with the SSIM values 1.0, 0.5, 0.5 and 0.75: frame 1 drops by 0.5 to a
  value below 0.7, frame 2 stays at that low value, frame 3 recovers.
\<close>

definition ex_ssim_frames :: "FrameInfo list" where
  "ex_ssim_frames =
     [mk_frame 0 ''a0'' (Some 1) (Some 0) (Some 0),
      mk_frame 1 ''a1'' (Some 0.5) (Some 0.5) (Some 0),
      mk_frame 2 ''a2'' (Some 0.5) (Some 0.5) (Some 0),
      mk_frame 3 ''a3'' (Some 0.75) (Some 0.5) (Some 0)]"

text \<open>
  \<open>cell_suspicious arr c\<close>: the grid cell at \<open>c = (y, x)\<close> of the ELA array has a mean
  above 30 or a maximum above 100.
\<close>

definition cell_suspicious :: "ela_array \<Rightarrow> nat \<times> nat \<Rightarrow> bool" where
  "cell_suspicious arr c \<longleftrightarrow>
     mean_val (region_values arr (fst c) (snd c) 50) > 30
     \<or> max_val (region_values arr (fst c) (snd c) 50) > 100"

text \<open>
  An ELA array of one row of \<open>w\<close> pixels whose three channels all hold \<open>v\<close>, and the
  environment in which \<^verbatim>\<open>perform_ela\<close> returns it for every image, with the maximum
  difference \<open>v\<close>. A strip of 251 pixels has six grid cells, one of 101 pixels three.
\<close>

definition ela_strip :: "nat \<Rightarrow> nat \<Rightarrow> ela_array" where
  "ela_strip w v = [replicate w [v, v, v]]"

definition ela_env :: "nat \<Rightarrow> nat \<Rightarrow> Env" where
  "ela_env w v = exact_env\<lparr>perform_ela := (\<lambda>p. Some (''ela.jpg'', v, ela_strip w v))\<rparr>"

text \<open>
  Two frames, the second with an SSIM drop of 0.5 and another colour cluster; the
  second frame as the classification loop hands it to the ELA check, with its two
  reasons and confidence MEDIUM; and a frame with a third reason and confidence HIGH.
\<close>

definition ex_scene_frames :: "FrameInfo list" where
  "ex_scene_frames =
     [mk_frame 0 ''b0'' (Some 1) (Some 0) (Some 0),
      mk_frame 1 ''b1'' (Some 0.5) (Some 0.5) (Some 1)]"

definition ex_medium :: FrameInfo where
  "ex_medium =
     (mk_frame 1 ''b1'' (Some 0.5) (Some 0.5) (Some 1))
       \<lparr>frame_type := anomaly_discontinuity,
        evidence_obj :=
          \<lparr>reasons = [''Penurunan Drastis SSIM'', ''Perubahan Adegan (dari K-Means)''],
           metrics = [(''ssim_drop'', MNum 0.5),
                      (''color_cluster_jump'', MStr (''0'' @ arrow @ ''1''))],
           confidence = SEDANG, ela_path = None, sift_path = None\<rparr>\<rparr>"

definition ex_high :: FrameInfo where
  "ex_high =
     ex_medium\<lparr>evidence_obj :=
       \<lparr>reasons = [''Lonjakan Aliran Optik'', ''Penurunan Drastis SSIM'',
                   ''Perubahan Adegan (dari K-Means)''],
        metrics = [(''optical_flow_z_score'', MNum 6), (''ssim_drop'', MNum 0.5),
                   (''color_cluster_jump'', MStr (''0'' @ arrow @ ''1''))],
        confidence = TINGGI, ela_path = None, sift_path = None\<rparr>\<rparr>"

section \<open>Theorems\<close>

lemma dict_get_type_severity: "dict_get type_severity t 0.3 = spec_base t"
  by (simp add: dict_get_def type_severity_def spec_base_def)

lemma dict_get_confidence_multiplier:
  "dict_get confidence_multiplier c 0.5 = spec_confidence_multiplier c"
  by (simp add: dict_get_def confidence_multiplier_def spec_confidence_multiplier_def)

lemma calculate_event_severity_spec:
  "calculate_event_severity e =
     spec_severity (event e) (ev_confidence e)
       (case duration e of None \<Rightarrow> 0 | Some d \<Rightarrow> d) (frame_count e)"
  unfolding calculate_event_severity_def spec_severity_def Let_def
    dict_get_type_severity dict_get_confidence_multiplier
    spec_duration_bonus_def spec_count_bonus_def
  by simp

subsection \<open>Dictionaries\<close>

lemma wsum_keys:
  "distinct (map fst cd) \<Longrightarrow>
   sum_list (map (\<lambda>(k, c). real c * w k) cd) = (\<Sum>k \<in> fst ` set cd. real (dict_get cd k 0) * w k)"
proof (induction cd)
  case Nil
  then show ?case by simp
next
  case (Cons p cd)
  obtain k c where p: "p = (k, c)" by (cases p)
  from Cons.prems p have nk: "k \<notin> fst ` set cd" and d: "distinct (map fst cd)" by auto
  have same: "\<And>k'. k' \<in> fst ` set cd \<Longrightarrow> dict_get (p # cd) k' 0 = dict_get cd k' 0"
    using nk p by (auto simp: dict_get_def)
  have "(\<Sum>k' \<in> fst ` set (p # cd). real (dict_get (p # cd) k' 0) * w k')
        = real (dict_get (p # cd) k 0) * w k + (\<Sum>k' \<in> fst ` set cd. real (dict_get (p # cd) k' 0) * w k')"
    using nk p by simp
  also have "\<dots> = real c * w k + (\<Sum>k' \<in> fst ` set cd. real (dict_get cd k' 0) * w k')"
    using same p by (simp add: dict_get_def)
  finally show ?case using Cons.IH[OF d] p by simp
qed

lemma total_keys:
  "distinct (map fst cd) \<Longrightarrow>
   sum_list (map snd cd) = (\<Sum>k \<in> fst ` set cd. dict_get cd k 0)"
proof (induction cd)
  case Nil
  then show ?case by simp
next
  case (Cons p cd)
  obtain k c where p: "p = (k, c)" by (cases p)
  from Cons.prems p have nk: "k \<notin> fst ` set cd" and d: "distinct (map fst cd)" by auto
  have same: "\<And>k'. k' \<in> fst ` set cd \<Longrightarrow> dict_get (p # cd) k' 0 = dict_get cd k' 0"
    using nk p by (auto simp: dict_get_def)
  have "(\<Sum>k' \<in> fst ` set (p # cd). dict_get (p # cd) k' 0)
        = dict_get (p # cd) k 0 + (\<Sum>k' \<in> fst ` set cd. dict_get (p # cd) k' 0)"
    using nk p by simp
  also have "\<dots> = c + (\<Sum>k' \<in> fst ` set cd. dict_get cd k' 0)"
    using same p by (simp add: dict_get_def)
  finally show ?case using Cons.IH[OF d] p by simp
qed

lemma dict_get_absent: "k \<notin> fst ` set cd \<Longrightarrow> dict_get cd k dflt = dflt"
  using map_of_eq_None_iff[of cd k] by (simp add: dict_get_def)

lemma risk_bounds_aux:
  "0 \<le> sum_list (map (\<lambda>(level, count). real count * dict_get false_positive_risks level 0.5) cd)
   \<and> sum_list (map (\<lambda>(level, count). real count * dict_get false_positive_risks level 0.5) cd)
      \<le> real (sum_list (map snd cd))"
proof (induction cd)
  case Nil
  then show ?case by simp
next
  case (Cons p cd)
  obtain k c where p: "p = (k, c)" by (cases p)
  have "0 \<le> dict_get false_positive_risks k 0.5 \<and> dict_get false_positive_risks k 0.5 \<le> 1"
    by (simp add: dict_get_def false_positive_risks_def)
  then have "0 \<le> real c * dict_get false_positive_risks k 0.5
      \<and> real c * dict_get false_positive_risks k 0.5 \<le> real c"
    by (simp add: mult_left_le)
  with Cons.IH p show ?case by simp
qed

lemma weighted_fp_risk_bounds: "0 \<le> weighted_fp_risk cd \<and> weighted_fp_risk cd \<le> 1"
  using risk_bounds_aux[of cd]
  by (simp add: weighted_fp_risk_def divide_le_eq)

subsection \<open>The scan of the event localizer\<close>

lemma closed_run_snoc: "closed_run fs e \<Longrightarrow> closed_run (fs @ gs) e"
  unfolding closed_run_def
proof (elim exE conjE)
  fix pre mem post
  assume "fs = pre @ mem @ post" "good_run mem e"
  then have "fs @ gs = pre @ mem @ (post @ gs) \<and> good_run mem e" by simp
  then show "\<exists>pre mem post. fs @ gs = pre @ mem @ post \<and> good_run mem e" by blast
qed

lemma open_run_closed: "open_run fs e \<Longrightarrow> closed_run (fs @ gs) e"
  unfolding closed_run_def open_run_def
proof (elim exE conjE)
  fix pre mem
  assume "fs = pre @ mem" "good_run mem e"
  then have "fs @ gs = pre @ mem @ gs \<and> good_run mem e" by simp
  then show "\<exists>pre mem post. fs @ gs = pre @ mem @ post \<and> good_run mem e" by blast
qed

lemma good_run_new: "is_anomaly f \<Longrightarrow> good_run [f] (new_event f)"
  by (simp add: good_run_def new_event_def)

lemma open_run_new: "is_anomaly f \<Longrightarrow> open_run (fs @ [f]) (new_event f)"
  unfolding open_run_def using good_run_new by blast

lemma good_run_extend:
  assumes "good_run mem e" "is_anomaly f" "event e = frame_type f" "index f = end_frame e + 1"
  shows "good_run (mem @ [f]) (extend_event e f)"
  using assms by (auto simp: good_run_def extend_event_def)

lemma open_run_extend:
  assumes "open_run fs e" "is_anomaly f" "event e = frame_type f" "index f = end_frame e + 1"
  shows "open_run (fs @ [f]) (extend_event e f)"
proof -
  from assms(1) obtain pre mem where "fs = pre @ mem" "good_run mem e"
    unfolding open_run_def by blast
  then have "fs @ [f] = pre @ (mem @ [f]) \<and> good_run (mem @ [f]) (extend_event e f)"
    using good_run_extend[OF _ assms(2-4)] by simp
  then show ?thesis unfolding open_run_def by blast
qed

lemma localize_loop_runs:
  assumes "\<forall>e\<in>set locs. closed_run done e"
    and "\<forall>e. ev = Some e \<longrightarrow> open_run done e"
  shows "\<forall>e\<in>set (localize_loop locs ev fs). closed_run (done @ fs) e"
  using assms
proof (induction fs arbitrary: locs ev "done")
  case Nil
  then show ?case
    using open_run_closed[of "done" _ "[]"] by (auto split: option.splits)
next
  case (Cons f fs)
  have step: "\<forall>e\<in>set (localize_loop locs' ev' fs). closed_run (done @ f # fs) e"
    if "\<forall>e\<in>set locs'. closed_run (done @ [f]) e"
      and "\<forall>e. ev' = Some e \<longrightarrow> open_run (done @ [f]) e" for locs' ev'
    using Cons.IH[of locs' "done @ [f]" ev'] that by simp
  have closed': "\<forall>e\<in>set locs. closed_run (done @ [f]) e"
    using Cons.prems(1) closed_run_snoc by blast
  show ?case
  proof (cases "is_anomaly f")
    case anom: True
    show ?thesis
    proof (cases ev)
      case None
      have "\<forall>e\<in>set (localize_loop locs (Some (new_event f)) fs). closed_run (done @ f # fs) e"
        by (rule step) (use closed' open_run_new[OF anom] in auto)
      then show ?thesis using anom None by simp
    next
      case (Some e)
      then have op: "open_run done e" using Cons.prems(2) by simp
      show ?thesis
      proof (cases "event e = frame_type f \<and> index f = end_frame e + 1")
        case True
        then have ext: "open_run (done @ [f]) (extend_event e f)"
          using open_run_extend[OF op anom] by simp
        have "\<forall>e'\<in>set (localize_loop locs (Some (extend_event e f)) fs).
                closed_run (done @ f # fs) e'"
          by (rule step) (use closed' ext in auto)
        then show ?thesis using anom Some True by simp
      next
        case False
        have "\<forall>e'\<in>set (localize_loop (locs @ [e]) (Some (new_event f)) fs).
                closed_run (done @ f # fs) e'"
          by (rule step)
             (use closed' open_run_closed[OF op] open_run_new[OF anom] in auto)
        then show ?thesis using anom Some False by auto
      qed
    qed
  next
    case norm: False
    show ?thesis
    proof (cases ev)
      case None
      have "\<forall>e\<in>set (localize_loop locs None fs). closed_run (done @ f # fs) e"
        by (rule step) (use closed' in auto)
      then show ?thesis using norm None by simp
    next
      case (Some e)
      then have op: "open_run done e" using Cons.prems(2) by simp
      have "\<forall>e'\<in>set (localize_loop (locs @ [e]) None fs). closed_run (done @ f # fs) e'"
        by (rule step) (use closed' open_run_closed[OF op] in auto)
      then show ?thesis using norm Some by simp
    qed
  qed
qed

lemma sorted_run_members:
  assumes srt: "sorted_wrt (<) (map index fs)"
    and fs: "fs = pre @ mem @ post"
    and st: "s \<le> t"
    and idx: "map index mem = [s..<Suc t]"
  shows "filter (\<lambda>f. s \<le> index f \<and> index f \<le> t) fs = mem"
proof -
  have "index ` set mem = set (map index mem)" by simp
  also have "\<dots> = {s..<Suc t}" unfolding idx by (simp only: set_upt)
  finally have set_mem: "index ` set mem = {s..<Suc t}" .
  have "s \<in> index ` set mem" "t \<in> index ` set mem"
    using st unfolding set_mem by auto
  then obtain a b where a: "a \<in> set mem" "index a = s" and b: "b \<in> set mem" "index b = t"
    by auto
  from srt fs have pre_lt: "\<forall>x\<in>set pre. \<forall>y\<in>set mem. index x < index y"
    and post_gt: "\<forall>y\<in>set mem. \<forall>z\<in>set post. index y < index z"
    by (auto simp: sorted_wrt_append)
  have pre_s: "\<forall>x\<in>set pre. index x < s" using pre_lt a by blast
  have post_t: "\<forall>z\<in>set post. t < index z" using post_gt b by blast
  have "filter (\<lambda>f. s \<le> index f \<and> index f \<le> t) pre = []"
    using pre_s by (auto simp: filter_empty_conv)
  moreover have "filter (\<lambda>f. s \<le> index f \<and> index f \<le> t) post = []"
    using post_t by (auto simp: filter_empty_conv)
  moreover have "\<forall>f\<in>set mem. s \<le> index f \<and> index f \<le> t"
    using set_mem by (metis atLeastLessThan_iff imageI less_Suc_eq_le)
  then have "filter (\<lambda>f. s \<le> index f \<and> index f \<le> t) mem = mem"
    by (simp add: filter_id_conv)
  ultimately show ?thesis using fs by simp
qed

lemma score_event_fields:
  "event (score_event env e) = event e" "start_frame (score_event env e) = start_frame e"
  "end_frame (score_event env e) = end_frame e" "frame_count (score_event env e) = frame_count e"
  by (simp_all add: score_event_def Let_def)

lemma covers_new: "covers (new_event f) f"
  by (simp add: covers_def new_event_def)

lemma covers_extend_new: "event e = frame_type f \<Longrightarrow> index f = end_frame e + 1 \<Longrightarrow> start_frame e \<le> end_frame e \<Longrightarrow> covers (extend_event e f) f"
  by (simp add: covers_def extend_event_def)

lemma covers_extend_old: "covers e g \<Longrightarrow> index f = end_frame e + 1 \<Longrightarrow> covers (extend_event e f) g"
  by (simp add: covers_def extend_event_def)

lemma localize_loop_covers:
  assumes "\<forall>g\<in>set done. is_anomaly g \<longrightarrow> (\<exists>e\<in>set locs \<union> set_option ev. covers e g)"
    and "\<forall>e. ev = Some e \<longrightarrow> start_frame e \<le> end_frame e"
  shows "\<forall>g\<in>set (done @ fs). is_anomaly g \<longrightarrow> (\<exists>e\<in>set (localize_loop locs ev fs). covers e g)"
  using assms
proof (induction fs arbitrary: locs ev "done")
  case Nil
  then show ?case by (cases ev) auto
next
  case (Cons f fs)
  have step: "\<forall>g\<in>set (done @ f # fs). is_anomaly g \<longrightarrow> (\<exists>e\<in>set (localize_loop locs' ev' fs). covers e g)"
    if "\<forall>g\<in>set (done @ [f]). is_anomaly g \<longrightarrow> (\<exists>e\<in>set locs' \<union> set_option ev'. covers e g)"
      and "\<forall>e. ev' = Some e \<longrightarrow> start_frame e \<le> end_frame e" for locs' ev'
    using Cons.IH[of "done @ [f]" locs' ev'] that by simp
  show ?case
  proof (cases "is_anomaly f")
    case anom: True
    show ?thesis
    proof (cases ev)
      case None
      have "\<forall>g\<in>set (done @ f # fs). is_anomaly g \<longrightarrow>
              (\<exists>e\<in>set (localize_loop locs (Some (new_event f)) fs). covers e g)"
      proof (rule step)
        show "\<forall>g\<in>set (done @ [f]). is_anomaly g \<longrightarrow>
                (\<exists>e\<in>set locs \<union> set_option (Some (new_event f)). covers e g)"
          using Cons.prems(1) None covers_new by auto
        show "\<forall>e. Some (new_event f) = Some e \<longrightarrow> start_frame e \<le> end_frame e"
          by (auto simp: new_event_def)
      qed
      then show ?thesis using anom None by simp
    next
      case (Some e)
      then have se: "start_frame e \<le> end_frame e" using Cons.prems(2) by simp
      show ?thesis
      proof (cases "event e = frame_type f \<and> index f = end_frame e + 1")
        case True
        have "\<forall>g\<in>set (done @ f # fs). is_anomaly g \<longrightarrow>
                (\<exists>e'\<in>set (localize_loop locs (Some (extend_event e f)) fs). covers e' g)"
        proof (rule step)
          show "\<forall>g\<in>set (done @ [f]). is_anomaly g \<longrightarrow>
                  (\<exists>e'\<in>set locs \<union> set_option (Some (extend_event e f)). covers e' g)"
          proof (intro ballI impI)
            fix g assume g: "g \<in> set (done @ [f])" "is_anomaly g"
            show "\<exists>e'\<in>set locs \<union> set_option (Some (extend_event e f)). covers e' g"
            proof (cases "g = f")
              case True
              then show ?thesis using covers_extend_new[of e f] \<open>event e = frame_type f \<and> index f = end_frame e + 1\<close> se by auto
            next
              case False
              then have "g \<in> set done" using g by auto
              then obtain e' where e': "e' \<in> set locs \<union> set_option ev" "covers e' g"
                using Cons.prems(1) g(2) by blast
              show ?thesis
              proof (cases "e' = e")
                case True
                then show ?thesis using e' covers_extend_old[of e g f] \<open>event e = frame_type f \<and> index f = end_frame e + 1\<close> by auto
              next
                case False
                then show ?thesis using e' Some by auto
              qed
            qed
          qed
          show "\<forall>e'. Some (extend_event e f) = Some e' \<longrightarrow> start_frame e' \<le> end_frame e'"
            using True se by (auto simp: extend_event_def)
        qed
        then show ?thesis using anom Some True by simp
      next
        case False
        have "\<forall>g\<in>set (done @ f # fs). is_anomaly g \<longrightarrow>
                (\<exists>e'\<in>set (localize_loop (locs @ [e]) (Some (new_event f)) fs). covers e' g)"
        proof (rule step)
          show "\<forall>g\<in>set (done @ [f]). is_anomaly g \<longrightarrow>
                  (\<exists>e'\<in>set (locs @ [e]) \<union> set_option (Some (new_event f)). covers e' g)"
            using Cons.prems(1) Some covers_new by auto
          show "\<forall>e'. Some (new_event f) = Some e' \<longrightarrow> start_frame e' \<le> end_frame e'"
            by (auto simp: new_event_def)
        qed
        then show ?thesis using anom Some False by auto
      qed
    qed
  next
    case norm: False
    show ?thesis
    proof (cases ev)
      case None
      have "\<forall>g\<in>set (done @ f # fs). is_anomaly g \<longrightarrow>
              (\<exists>e\<in>set (localize_loop locs None fs). covers e g)"
        by (rule step) (use Cons.prems(1) None norm in auto)
      then show ?thesis using norm None by simp
    next
      case (Some e)
      have "\<forall>g\<in>set (done @ f # fs). is_anomaly g \<longrightarrow>
              (\<exists>e'\<in>set (localize_loop (locs @ [e]) None fs). covers e' g)"
        by (rule step) (use Cons.prems(1) Some norm in auto)
      then show ?thesis using norm Some by simp
    qed
  qed
qed

lemma separated_same_last:
  "separated (xs @ [a]) \<Longrightarrow> start_frame a' = start_frame a \<Longrightarrow> event a' = event a
   \<Longrightarrow> separated (xs @ [a'])"
proof (induction xs rule: separated.induct)
  case 1
  then show ?case by simp
next
  case (2 e)
  then show ?case by (simp add: mergeable_def)
next
  case (3 e1 e2 es)
  then show ?case by simp
qed

lemma separated_snoc:
  "separated (xs @ [a]) \<Longrightarrow> \<not> mergeable a b \<Longrightarrow> separated (xs @ [a, b])"
proof (induction xs rule: separated.induct)
  case 1
  then show ?case by simp
next
  case (2 e)
  then show ?case by simp
next
  case (3 e1 e2 es)
  then show ?case by simp
qed

lemma separated_snoc_last:
  assumes "separated locs" "locs \<noteq> [] \<longrightarrow> \<not> mergeable (last locs) b"
  shows "separated (locs @ [b])"
proof (cases locs rule: rev_cases)
  case Nil
  then show ?thesis by simp
next
  case (snoc ys a)
  then show ?thesis using assms separated_snoc[of ys a b] by simp
qed

lemma localize_loop_separated:
  assumes "scan_inv locs ev fs" "sorted_wrt (<) (map index fs)"
  shows "separated (localize_loop locs ev fs)"
  using assms
proof (induction fs arbitrary: locs ev)
  case Nil
  then show ?case by (cases ev) (auto simp: scan_inv_def)
next
  case (Cons f fs)
  from Cons.prems(2) have srt: "sorted_wrt (<) (map index fs)"
    and later: "\<forall>g\<in>set fs. index f < index g" by auto
  show ?case
  proof (cases "is_anomaly f")
    case anom: True
    show ?thesis
    proof (cases ev)
      case None
      have "\<not> mergeable (last locs) (new_event f)" if "locs \<noteq> []"
        using Cons.prems(1) None that by (auto simp: scan_inv_def mergeable_def new_event_def)
      then have "separated (locs @ [new_event f])"
        using Cons.prems(1) None by (intro separated_snoc_last) (auto simp: scan_inv_def)
      then have "scan_inv locs (Some (new_event f)) fs"
        using later by (simp add: scan_inv_def new_event_def)
      from Cons.IH[OF this srt] show ?thesis using anom None by simp
    next
      case (Some e)
      then have sep: "separated (locs @ [e])" using Cons.prems(1) by (simp add: scan_inv_def)
      show ?thesis
      proof (cases "event e = frame_type f \<and> index f = end_frame e + 1")
        case True
        have "separated (locs @ [extend_event e f])"
          by (rule separated_same_last[OF sep]) (simp_all add: extend_event_def)
        then have "scan_inv locs (Some (extend_event e f)) fs"
          using later by (simp add: scan_inv_def extend_event_def)
        from Cons.IH[OF this srt] show ?thesis using anom Some True by simp
      next
        case False
        then have "\<not> mergeable e (new_event f)"
          by (auto simp: mergeable_def new_event_def)
        then have "separated ((locs @ [e]) @ [new_event f])"
          using separated_snoc[OF sep] by simp
        then have "scan_inv (locs @ [e]) (Some (new_event f)) fs"
          using later by (simp add: scan_inv_def new_event_def)
        from Cons.IH[OF this srt] show ?thesis using anom Some False by auto
      qed
    qed
  next
    case norm: False
    show ?thesis
    proof (cases ev)
      case None
      then have "scan_inv locs None fs"
        using Cons.prems(1) by (auto simp: scan_inv_def)
      from Cons.IH[OF this srt] show ?thesis using norm None by simp
    next
      case (Some e)
      then have "end_frame e < index f" and sep: "separated (locs @ [e])"
        using Cons.prems(1) by (auto simp: scan_inv_def)
      then have "\<forall>g\<in>set fs. end_frame e + 1 < index g" using later by fastforce
      then have "scan_inv (locs @ [e]) None fs"
        using sep by (simp add: scan_inv_def)
      from Cons.IH[OF this srt] show ?thesis using norm Some by simp
    qed
  qed
qed

lemma separated_map_score: "separated (map (score_event env) es) = separated es"
  by (induction es rule: separated.induct) (simp_all add: mergeable_def score_event_def Let_def)

subsection \<open>Frame severity\<close>

lemma recognized_count_all:
  assumes d: "distinct (map fst m)"
    and k: "set (map fst m) \<subseteq> {''ssim_drop'', ''optical_flow_z_score'',
                                ''sift_inlier_ratio'', ''ela_max_difference''}"
  shows "recognized_count m = length m"
proof -
  let ?K = "[''ssim_drop'', ''optical_flow_z_score'', ''sift_inlier_ratio'',
             ''ela_max_difference'']"
  have dk: "distinct ?K" by simp
  have dom: "{key. map_of m key \<noteq> None} = set (map fst m)"
    by (simp add: map_of_eq_None_iff)
  have sub: "set (map fst m) \<subseteq> set ?K" using k by simp
  have "recognized_count m = card ({key. map_of m key \<noteq> None} \<inter> set ?K)"
    unfolding recognized_count_def by (rule distinct_length_filter[OF dk])
  also have "\<dots> = card (set (map fst m) \<inter> set ?K)" by (simp only: dom)
  also have "\<dots> = card (set (map fst m))" by (simp only: Int_absorb2[OF sub])
  also have "\<dots> = length (map fst m)" by (rule distinct_card[OF d])
  finally show ?thesis by simp
qed

lemma add_metric_numeric:
  "numeric_at m key \<Longrightarrow>
   add_metric m key g s = Inr (s + (case num_metric m key of None \<Rightarrow> 0 | Some x \<Rightarrow> g x))"
  by (auto simp: add_metric_def numeric_at_def num_metric_def split: option.splits mval.splits)

subsection \<open>Stage 3\<close>

lemma pairwise_loop_length: "length (pairwise_loop check p fs) = length fs"
  by (induction fs arbitrary: p) (simp_all add: Let_def)

lemma pairwise_pass_length: "length (pairwise_pass check fs) = length fs"
  by (cases fs) (simp_all add: pairwise_pass_def pairwise_loop_length)

lemma pairwise_loop_nth:
  "i < length fs \<Longrightarrow>
   pairwise_loop check p fs ! i
   = check (if i = 0 then p else pairwise_loop check p fs ! (i - 1)) (fs ! i)"
proof (induction fs arbitrary: p i)
  case Nil
  then show ?case by simp
next
  case (Cons f fs)
  show ?case
  proof (cases i)
    case 0
    then show ?thesis by (simp add: Let_def)
  next
    case (Suc k)
    then have k: "k < length fs" using Cons.prems by simp
    show ?thesis
      using Cons.IH[OF k, of "check p f"] Suc by (cases k) (simp_all add: Let_def)
  qed
qed

lemma pairwise_pass_nth:
  assumes "0 < i" "i < length fs"
  shows "pairwise_pass check fs ! i = check (pairwise_pass check fs ! (i - 1)) (fs ! i)"
proof -
  obtain f0 rest where fs: "fs = f0 # rest" using assms by (cases fs) auto
  obtain k where i: "i = Suc k" using assms(1) by (cases i) auto
  have k: "k < length rest" using assms(2) fs i by simp
  show ?thesis
    using pairwise_loop_nth[OF k, of check f0] fs i
    by (cases k) (simp_all add: pairwise_pass_def)
qed

lemma pairwise_pass_nth0: "fs \<noteq> [] \<Longrightarrow> pairwise_pass check fs ! 0 = fs ! 0"
  by (cases fs) (simp_all add: pairwise_pass_def)

lemma ssim_check_ssim: "ssim_to_prev (ssim_check cfg env p f) = ssim_to_prev f"
  by (simp add: ssim_check_def set_metric_def add_reason_def Let_def split: option.splits)

lemma ssim_pass_ssim:
  "i < length fs \<Longrightarrow> ssim_to_prev (ssim_pass cfg env fs ! i) = ssim_to_prev (fs ! i)"
proof (cases i)
  case 0
  assume "i < length fs"
  then show ?thesis using 0 pairwise_pass_nth0[of fs] by (auto simp: ssim_pass_def)
next
  case (Suc k)
  assume "i < length fs"
  then show ?thesis
    using pairwise_pass_nth[of i fs "ssim_check cfg env"] Suc
    by (simp add: ssim_pass_def ssim_check_ssim)
qed

lemma ssim_check_reasons:
  "reasons (evidence_obj (ssim_check cfg env p f))
   = reasons (evidence_obj f)
     @ (case (ssim_to_prev p, ssim_to_prev f) of
          (Some prev, Some cur) \<Rightarrow>
            if fsub env prev cur > SSIM_DISCONTINUITY_DROP cfg
            then [''Penurunan Drastis SSIM'']
            else if cur < float_0_7 then [''SSIM Sangat Rendah'']
            else []
        | _ \<Rightarrow> [])"
  by (simp add: ssim_check_def set_metric_def add_reason_def Let_def split: option.splits)

lemma suspicious_count_filter:
  "suspicious_count (analyze_ela_regions arr g) = length (filter (region_suspicious arr g) (grid_cells arr g))"
  by (simp add: analyze_ela_regions_def Let_def split: prod.splits)

lemma ela_check_confidence:
  "confidence (evidence_obj (ela_check env f))
   = (if 5 < ela_suspicious env f then next_tier (confidence (evidence_obj f))
      else confidence (evidence_obj f))"
  by (auto simp: ela_check_def ela_suspicious_def suspicious_count_filter Let_def next_tier_def
      set_metric_def add_reason_def set_confidence_def split: option.splits prod.splits)

lemma ela_check_type: "frame_type (ela_check env f) = frame_type f"
  by (auto simp: ela_check_def Let_def
      set_metric_def add_reason_def set_confidence_def split: option.splits prod.splits)

lemma ela_check_reasons:
  "reasons (evidence_obj (ela_check env f))
   = (if 0 < ela_suspicious env f \<and> ELA_REASON \<notin> set (reasons (evidence_obj f))
      then reasons (evidence_obj f) @ [ELA_REASON] else reasons (evidence_obj f))"
  by (auto simp: ela_check_def ela_suspicious_def suspicious_count_filter Let_def
      set_metric_def add_reason_def set_confidence_def split: option.splits prod.splits)

lemma ela_check_metrics:
  assumes "perform_ela env (img_path_original f) = Some (p, max_diff, arr)"
    and "0 < length (filter (region_suspicious arr 50) (grid_cells arr 50))"
  shows "map_of (metrics (evidence_obj (ela_check env f))) ''ela_max_difference'' = Some (MNum (real max_diff))"
    and "map_of (metrics (evidence_obj (ela_check env f))) ''ela_suspicious_regions''
         = Some (MNum (real (length (filter (region_suspicious arr 50) (grid_cells arr 50)))))"
  using assms
  by (auto simp: ela_check_def suspicious_count_filter Let_def update_conv'
      set_metric_def add_reason_def set_confidence_def)

lemma ela_check_metrics_none:
  assumes "ela_suspicious env f = 0"
  shows "metrics (evidence_obj (ela_check env f)) = metrics (evidence_obj f)"
  using assms
  by (auto simp: ela_check_def ela_suspicious_def suspicious_count_filter Let_def
      split: option.splits prod.splits)

lemma synthesize_empty: "reasons (evidence_obj f) = [] \<Longrightarrow> synthesize_frame env f = f"
  by (simp add: synthesize_frame_def)

lemma synthesize_type:
  "frame_type (synthesize_frame env f)
   = (if reasons (evidence_obj f) \<noteq> [] \<and> frame_type f = original
      then anomaly_discontinuity else frame_type f)"
  by (simp add: synthesize_frame_def Let_def ela_check_type set_confidence_def)

lemma synthesize_confidence_fixed:
  assumes "reasons (evidence_obj f) \<noteq> []"
    and "frame_type f = anomaly_duplication \<or> frame_type f = anomaly_insertion"
  shows "confidence (evidence_obj (synthesize_frame env f)) = SANGAT_TINGGI"
  using assms by (auto simp: synthesize_frame_def Let_def count_confidence_def set_confidence_def)

lemma synthesize_confidence_count:
  assumes "reasons (evidence_obj f) \<noteq> []"
    and "frame_type f \<noteq> anomaly_duplication" "frame_type f \<noteq> anomaly_insertion"
  shows "confidence (evidence_obj (synthesize_frame env f))
     = (if 2 \<le> length (reasons (evidence_obj f)) \<and> 5 < ela_suspicious env f
        then next_tier (base_tier (length (reasons (evidence_obj f))))
        else base_tier (length (reasons (evidence_obj f))))"
proof -
  let ?f1 = "if frame_type f = original then f\<lparr>frame_type := anomaly_discontinuity\<rparr> else f"
  let ?f2 = "set_confidence (count_confidence ?f1) ?f1"
  have ty: "frame_type ?f2 \<noteq> anomaly_duplication" "frame_type ?f2 \<noteq> anomaly_insertion"
    using assms(2,3) by (simp_all add: set_confidence_def)
  have cc: "confidence (evidence_obj ?f2) = base_tier (length (reasons (evidence_obj f)))"
    using assms(2,3) by (simp add: set_confidence_def count_confidence_def base_tier_def Let_def)
  have path: "ela_suspicious env ?f2 = ela_suspicious env f"
    by (simp add: ela_suspicious_def set_confidence_def)
  have syn: "synthesize_frame env f
     = (if confidence (evidence_obj ?f2) \<in> set [SEDANG, TINGGI, SANGAT_TINGGI]
        then ela_check env ?f2 else ?f2)"
    using assms(1) ty by (simp add: synthesize_frame_def Let_def)
  show ?thesis
  proof (cases "2 \<le> length (reasons (evidence_obj f))")
    case True
    then have "confidence (evidence_obj ?f2) \<in> set [SEDANG, TINGGI, SANGAT_TINGGI]"
      unfolding cc by (simp add: base_tier_def)
    then have "synthesize_frame env f = ela_check env ?f2" using syn by simp
    then show ?thesis using True by (simp add: ela_check_confidence cc path)
  next
    case False
    then have "confidence (evidence_obj ?f2) = RENDAH" unfolding cc by (simp add: base_tier_def)
    then have "synthesize_frame env f = ?f2" using syn by simp
    then show ?thesis using False cc by simp
  qed
qed

lemma synthesize_reasons:
  "reasons (evidence_obj (synthesize_frame env f))
   = (if 2 \<le> length (reasons (evidence_obj f))
         \<and> frame_type f \<noteq> anomaly_duplication \<and> frame_type f \<noteq> anomaly_insertion
         \<and> 0 < ela_suspicious env f \<and> ELA_REASON \<notin> set (reasons (evidence_obj f))
      then reasons (evidence_obj f) @ [ELA_REASON] else reasons (evidence_obj f))"
proof -
  let ?f1 = "if frame_type f = original then f\<lparr>frame_type := anomaly_discontinuity\<rparr> else f"
  let ?f2 = "set_confidence (count_confidence ?f1) ?f1"
  have r2: "reasons (evidence_obj ?f2) = reasons (evidence_obj f)"
    by (simp add: set_confidence_def)
  have path: "ela_suspicious env ?f2 = ela_suspicious env f"
    by (simp add: ela_suspicious_def set_confidence_def)
  have ty: "frame_type ?f2 \<in> set [anomaly_duplication, anomaly_insertion]
     \<longleftrightarrow> frame_type f = anomaly_duplication \<or> frame_type f = anomaly_insertion"
    by (auto simp: set_confidence_def)
  have cc: "confidence (evidence_obj ?f2) = count_confidence ?f1"
    by (simp add: set_confidence_def)
  have cnt: "count_confidence ?f1 \<in> set [SEDANG, TINGGI, SANGAT_TINGGI]
      \<longleftrightarrow> frame_type f = anomaly_duplication \<or> frame_type f = anomaly_insertion
          \<or> 2 \<le> length (reasons (evidence_obj f))"
    by (auto simp: count_confidence_def Let_def)
  show ?thesis
  proof (cases "reasons (evidence_obj f) = []")
    case True
    then show ?thesis by (simp add: synthesize_frame_def)
  next
    case False
    then have syn: "synthesize_frame env f
       = (if count_confidence ?f1 \<in> set [SEDANG, TINGGI, SANGAT_TINGGI]
             \<and> frame_type ?f2 \<notin> set [anomaly_duplication, anomaly_insertion]
          then ela_check env ?f2 else ?f2)"
      unfolding synthesize_frame_def Let_def cc by simp
    show ?thesis
      unfolding syn cnt ty
      by (auto simp: ela_check_reasons r2 path)
  qed
qed

lemma range_step_less: "0 < g \<Longrightarrow> y \<in> set (range_step n g) \<Longrightarrow> y < n"
proof -
  assume g: "0 < g" and "y \<in> set (range_step n g)"
  then obtain k where k: "k < (n + g - 1) div g" "y = k * g"
    by (auto simp: range_step_def)
  from k(1) have "Suc k \<le> (n + g - 1) div g" by simp
  then have "Suc k * g \<le> n + g - 1" using g by (simp add: less_eq_div_iff_mult_less_eq)
  then show "y < n" using k(2) g by simp
qed

lemma grid_cells_in_range:
  assumes "0 < g" "(y, x) \<in> set (grid_cells a g)"
  shows "y < fst (shape a) \<and> x < snd (shape a)"
proof -
  obtain h w where hw: "shape a = (h, w)" by (cases "shape a")
  from assms(2) have "y \<in> set (range_step h g)" "x \<in> set (range_step w g)"
    by (auto simp: grid_cells_def hw)
  then show ?thesis using range_step_less[OF assms(1)] hw by simp
qed

lemma region_values_nonempty:
  assumes g: "0 < g"
    and rect: "\<forall>row\<in>set a. length row = snd (shape a)"
    and chans: "\<forall>row\<in>set a. \<forall>px\<in>set row. px \<noteq> []"
    and y: "y < fst (shape a)" and x: "x < snd (shape a)"
  shows "region_values a y x g \<noteq> []"
proof -
  obtain h w where hw: "shape a = (h, w)" by (cases "shape a")
  have h: "h = length a" using hw by (simp add: shape_def)
  have yh: "y < length a" using y hw h by simp
  let ?row = "a ! y"
  have row_in: "?row \<in> set a" using yh by simp
  then have lrow: "length ?row = w" using rect hw by simp
  have xw: "x < length ?row" using x hw lrow by simp
  let ?px = "?row ! x"
  have px_ne: "?px \<noteq> []" using chans row_in xw by simp
  let ?rows = "take (min (y + g) h - y) (drop y a)"
  let ?cut = "\<lambda>row. take (min (x + g) w - x) (drop x row)"
  have "0 < min (y + g) h - y" using g yh h by simp
  then have "?rows ! 0 = ?row" using yh by simp
  moreover have "0 < length ?rows" using g yh h by simp
  ultimately have row_mem: "?row \<in> set ?rows" by (metis nth_mem)
  have "0 < min (x + g) w - x" using g xw lrow by simp
  then have "?cut ?row ! 0 = ?px" using xw by simp
  moreover have "0 < length (?cut ?row)" using g xw lrow by simp
  ultimately have px_mem: "?px \<in> set (?cut ?row)" by (metis nth_mem)
  have "?px \<in> set (concat (map ?cut ?rows))" using row_mem px_mem by auto
  then have "concat (concat (map ?cut ?rows)) \<noteq> []" using px_ne by auto
  then show ?thesis by (simp add: region_values_def hw)
qed

lemma region_suspicious_iff:
  assumes "0 < g" "\<forall>row\<in>set a. length row = snd (shape a)"
    "\<forall>row\<in>set a. \<forall>px\<in>set row. px \<noteq> []" "c \<in> set (grid_cells a g)"
  shows "region_suspicious a g c
     \<longleftrightarrow> mean_val (region_values a (fst c) (snd c) g) > 30
         \<or> max_val (region_values a (fst c) (snd c) g) > 100"
proof -
  obtain y x where c: "c = (y, x)" by (cases c)
  have "region_values a y x g \<noteq> []"
    using region_values_nonempty[OF assms(1-3)] grid_cells_in_range[OF assms(1)] assms(4) c
    by blast
  then show ?thesis by (simp add: region_suspicious_def c Let_def)
qed

lemma synthesize_is_ela_check:
  assumes "2 \<le> length (reasons (evidence_obj f))"
    and "frame_type f \<noteq> anomaly_duplication" "frame_type f \<noteq> anomaly_insertion"
  shows "synthesize_frame env f
     = ela_check env (set_confidence (base_tier (length (reasons (evidence_obj f))))
         (if frame_type f = original then f\<lparr>frame_type := anomaly_discontinuity\<rparr> else f))"
  using assms
  by (auto simp: synthesize_frame_def Let_def count_confidence_def base_tier_def set_confidence_def)

lemma fold_max_replicate: "fold max (replicate n v) (a::nat) = (if n = 0 then a else max v a)"
  by (induction n arbitrary: a) (simp_all add: max.assoc)

lemma upt_0_6: "[0..<6] = [0, 1, 2, 3, 4, 5::nat]"
  by (simp add: upt_rec)

lemma max_val_replicate: "max_val (replicate n v) = (if n = 0 then 0 else v)"
  unfolding max_val_def by (simp add: fold_max_replicate del: fold_replicate)

lemma mean_val_replicate: "0 < n \<Longrightarrow> mean_val (replicate n v) = real v"
  by (simp add: mean_val_def sum_list_replicate)

lemma sift_success_good:
  "success (compare_sift_enhanced cfg env p q) \<Longrightarrow> good_matches (compare_sift_enhanced cfg env p q) \<noteq> None"
  by (auto simp: compare_sift_enhanced_def sift_failure_def Let_def split: option.splits if_splits)

lemma sift_inliers_ratio:
  "inliers (compare_sift_enhanced cfg env p q) = Some k \<Longrightarrow> inlier_ratio (compare_sift_enhanced cfg env p q) \<noteq> None"
  by (auto simp: compare_sift_enhanced_def sift_failure_def Let_def split: option.splits if_splits)

lemma verify_pair_eq:
  assumes i1: "idx1 < length fs" and i2: "idx2 < length fs" and m: "0 < SIFT_MIN_MATCH_COUNT cfg"
  shows "verify_pair cfg env idx1 idx2 fs
     = Inr (fs[idx2 := verified_frame cfg env idx1 (img_path_original (fs ! idx1)) (fs ! idx2)])"
proof -
  let ?p1 = "img_path_original (fs ! idx1)" and ?p2 = "img_path_original (fs ! idx2)"
  let ?r = "compare_sift_enhanced cfg env ?p1 ?p2"
  show ?thesis
  proof (cases "imread_gray env ?p1")
    case None
    then show ?thesis using i1 i2
      by (simp add: verify_pair_def verified_frame_def pair_confirmation_def Let_def)
  next
    case s1: (Some im1)
    show ?thesis
    proof (cases "imread_gray env ?p2")
      case None
      then show ?thesis using i1 i2 s1
        by (simp add: verify_pair_def verified_frame_def pair_confirmation_def Let_def)
    next
      case s2: (Some im2)
      show ?thesis
      proof (cases "shape im1 \<noteq> shape im2 \<or> img_max im1 - img_min im1 = 0")
        case True
        then show ?thesis using i1 i2 s1 s2
          by (auto simp: verify_pair_def verified_frame_def pair_confirmation_def Let_def)
      next
        case ok: False
        show ?thesis
        proof (cases "ssim env im1 im2 (real (img_max im1 - img_min im1)) > DUPLICATION_SSIM_CONFIRM cfg
                 \<and> success ?r \<and> (case inliers ?r of None \<Rightarrow> 0 | Some k \<Rightarrow> k) \<ge> SIFT_MIN_MATCH_COUNT cfg")
          case False
          then show ?thesis using i1 i2 s1 s2 ok
            by (auto simp: verify_pair_def verified_frame_def pair_confirmation_def Let_def)
        next
          case True
          then obtain a where a: "inliers ?r = Some a" using m by (cases "inliers ?r") auto
          obtain b where b: "good_matches ?r = Some b"
            using True sift_success_good[of cfg env ?p1 ?p2] by auto
          obtain c where c: "inlier_ratio ?r = Some c"
            using sift_inliers_ratio[OF a] by auto
          show ?thesis using i1 i2 s1 s2 ok True a b c
            by (simp add: verify_pair_def verified_frame_def pair_confirmation_def Let_def)
        qed
      qed
    qed
  qed
qed

lemma mark_duplicate_path: "img_path_original (mark_duplicate env i s a b c v f) = img_path_original f"
  by (simp add: mark_duplicate_def Let_def set_metric_def add_reason_def split: option.splits)

lemma verified_frame_path: "img_path_original (verified_frame cfg env i p f) = img_path_original f"
  by (simp add: verified_frame_def mark_duplicate_path split: option.splits prod.splits)

lemma verify_pairs_result:
  assumes "distinct (map snd ps)"
    and "\<forall>(j, i)\<in>set ps. j < length fs \<and> i < length fs"
    and m: "0 < SIFT_MIN_MATCH_COUNT cfg"
  shows "\<exists>fs'. verify_pairs cfg env ps fs = Inr fs' \<and> length fs' = length fs
     \<and> (\<forall>i<length fs. (\<forall>j. (j, i) \<notin> set ps) \<longrightarrow> fs' ! i = fs ! i)
     \<and> (\<forall>(j, i)\<in>set ps. fs' ! i = verified_frame cfg env j (img_path_original (fs ! j)) (fs ! i))
     \<and> (\<forall>i<length fs. img_path_original (fs' ! i) = img_path_original (fs ! i))"
  using assms(1,2)
proof (induction ps arbitrary: fs)
  case Nil
  then show ?case by simp
next
  case (Cons p ps)
  obtain j i where p: "p = (j, i)" by (cases p)
  have ji: "j < length fs" "i < length fs" using Cons.prems(2) p by auto
  let ?g = "verified_frame cfg env j (img_path_original (fs ! j)) (fs ! i)"
  let ?fs1 = "fs[i := ?g]"
  have vp: "verify_pair cfg env j i fs = Inr ?fs1" by (rule verify_pair_eq[OF ji m])
  have d: "distinct (map snd ps)" and ni: "i \<notin> snd ` set ps" using Cons.prems(1) p by auto
  have rng: "\<forall>(j, i)\<in>set ps. j < length ?fs1 \<and> i < length ?fs1" using Cons.prems(2) by auto
  from Cons.IH[OF d rng] obtain fs' where
    r: "verify_pairs cfg env ps ?fs1 = Inr fs'" and len: "length fs' = length ?fs1"
    and same: "\<forall>k<length ?fs1. (\<forall>j'. (j', k) \<notin> set ps) \<longrightarrow> fs' ! k = ?fs1 ! k"
    and upd: "\<forall>(j', k)\<in>set ps. fs' ! k = verified_frame cfg env j' (img_path_original (?fs1 ! j')) (?fs1 ! k)"
    and paths: "\<forall>k<length ?fs1. img_path_original (fs' ! k) = img_path_original (?fs1 ! k)"
    by blast
  have path1: "img_path_original (?fs1 ! k) = img_path_original (fs ! k)" if "k < length fs" for k
    using that by (cases "k = i") (simp_all add: verified_frame_path)
  have res: "verify_pairs cfg env (p # ps) fs = Inr fs'" using p vp r by simp
  have c1: "\<forall>k<length fs. (\<forall>j'. (j', k) \<notin> set (p # ps)) \<longrightarrow> fs' ! k = fs ! k"
  proof (intro allI impI)
    fix k assume k: "k < length fs" and no: "\<forall>j'. (j', k) \<notin> set (p # ps)"
    then have "k \<noteq> i" using p by auto
    moreover have "fs' ! k = ?fs1 ! k" using same k no by simp
    ultimately show "fs' ! k = fs ! k" by simp
  qed
  have c2: "\<forall>(j', k)\<in>set (p # ps). fs' ! k = verified_frame cfg env j' (img_path_original (fs ! j')) (fs ! k)"
  proof (clarify)
    fix j' k assume mem: "(j', k) \<in> set (p # ps)"
    show "fs' ! k = verified_frame cfg env j' (img_path_original (fs ! j')) (fs ! k)"
    proof (cases "(j', k) \<in> set ps")
      case True
      then have ki: "k \<noteq> i" using ni by force
      have j'l: "j' < length fs" using Cons.prems(2) True by auto
      have "fs' ! k = verified_frame cfg env j' (img_path_original (?fs1 ! j')) (?fs1 ! k)"
        using upd True by blast
      then show ?thesis using ki path1[OF j'l] by simp
    next
      case False
      then have eq: "j' = j" "k = i" using mem p by auto
      have "\<forall>j''. (j'', i) \<notin> set ps" using ni by force
      then have "fs' ! i = ?fs1 ! i" using same ji by simp
      then show ?thesis using eq ji by simp
    qed
  qed
  have c3: "\<forall>k<length fs. img_path_original (fs' ! k) = img_path_original (fs ! k)"
    using paths path1 by simp
  show ?case using res len c1 c2 c3 by simp
qed

lemma frames_indexed_nth: "frames_indexed fs \<Longrightarrow> i < length fs \<Longrightarrow> index (fs ! i) = i"
  unfolding frames_indexed_def by (metis add_0 length_map nth_map nth_upt)

lemma build_hash_map_snoc:
  "build_hash_map (fs @ [f])
   = (if hash_truthy f then hash_map_add (build_hash_map fs) (the (hash f)) (index f)
      else build_hash_map fs)"
  by (simp add: build_hash_map_def)

lemma build_hash_map_distinct: "distinct (map fst (build_hash_map fs))"
proof (induction fs rule: rev_induct)
  case Nil
  then show ?case by (simp add: build_hash_map_def)
next
  case (snoc f fs)
  then show ?case by (simp add: build_hash_map_snoc hash_map_add_def distinct_update)
qed

lemma build_hash_map_map_of:
  "map_of (build_hash_map fs) h
   = (let l = map index (filter (\<lambda>f. hash_truthy f \<and> hash f = Some h) fs)
      in if l = [] then None else Some l)"
proof (induction fs rule: rev_induct)
  case Nil
  then show ?case by (simp add: build_hash_map_def)
next
  case (snoc f fs)
  show ?case
  proof (cases "hash_truthy f")
    case False
    then show ?thesis using snoc by (simp add: build_hash_map_snoc)
  next
    case True
    then obtain h0 where h0: "hash f = Some h0" by (auto simp: hash_truthy_def split: option.splits)
    show ?thesis
    proof (cases "h = h0")
      case True
      then show ?thesis using snoc \<open>hash_truthy f\<close> h0
        by (simp add: build_hash_map_snoc hash_map_add_def update_conv' dict_get_def Let_def)
    next
      case False
      then show ?thesis using snoc \<open>hash_truthy f\<close> h0
        by (simp add: build_hash_map_snoc hash_map_add_def update_conv' Let_def)
    qed
  qed
qed

lemma filter_nth_positions:
  "filter Q fs = map ((!) fs) (filter (\<lambda>p. Q (fs ! p)) [0..<length fs])"
proof (induction fs rule: rev_induct)
  case Nil
  then show ?case by simp
next
  case (snoc f fs)
  have a: "filter (\<lambda>p. Q ((fs @ [f]) ! p)) [0..<length fs] = filter (\<lambda>p. Q (fs ! p)) [0..<length fs]"
    by (rule filter_cong) (simp_all add: nth_append)
  have b: "map ((!) (fs @ [f])) (filter (\<lambda>p. Q (fs ! p)) [0..<length fs])
         = map ((!) fs) (filter (\<lambda>p. Q (fs ! p)) [0..<length fs])"
    by (rule map_cong) (simp_all add: nth_append)
  show ?case using snoc a b by simp
qed

lemma indexed_filter_positions:
  assumes "frames_indexed fs"
  shows "map index (filter Q fs) = filter (\<lambda>p. Q (fs ! p)) [0..<length fs]"
proof -
  have "map index (filter Q fs)
        = map (\<lambda>p. index (fs ! p)) (filter (\<lambda>p. Q (fs ! p)) [0..<length fs])"
    by (subst filter_nth_positions[of Q fs]) (simp add: comp_def)
  also have "\<dots> = map (\<lambda>p. p) (filter (\<lambda>p. Q (fs ! p)) [0..<length fs])"
    by (rule map_cong) (use assms frames_indexed_nth in auto)
  finally show ?thesis by simp
qed

lemma hash_map_entry:
  assumes "frames_indexed fs"
  shows "(h, l) \<in> set (build_hash_map fs) \<longleftrightarrow> l = hash_positions fs h \<and> l \<noteq> []"
proof -
  have "(h, l) \<in> set (build_hash_map fs) \<longleftrightarrow> map_of (build_hash_map fs) h = Some l"
    using build_hash_map_distinct[of fs] by simp
  also have "\<dots> \<longleftrightarrow> l = hash_positions fs h \<and> l \<noteq> []"
    unfolding build_hash_map_map_of indexed_filter_positions[OF assms] hash_positions_def Let_def
    by auto
  finally show ?thesis .
qed

lemma hash_positions_sorted: "sorted_wrt (<) (hash_positions fs h)"
  unfolding hash_positions_def by (rule sorted_wrt_filter) (simp add: sorted_wrt_upt)

lemma hash_positions_mem:
  "p \<in> set (hash_positions fs h) \<longleftrightarrow> p < length fs \<and> hash_truthy (fs ! p) \<and> hash (fs ! p) = Some h"
  by (auto simp: hash_positions_def)

lemma dup_pairs_mem:
  "(j, i) \<in> set (dup_pairs (dup_candidates hm))
   \<longleftrightarrow> (\<exists>h l. (h, l) \<in> set hm \<and> 1 < length l \<and> j = l ! 0
              \<and> (\<exists>t. 1 \<le> t \<and> t < length l \<and> i = l ! t))"
proof
  assume "(j, i) \<in> set (dup_pairs (dup_candidates hm))"
  then obtain h l t where hl: "(h, l) \<in> set hm" "1 < length l"
    and t: "1 \<le> t" "t < length l" and ji: "j = l ! 0" "i = l ! t"
    by (auto simp: dup_pairs_def dup_candidates_def)
  show "\<exists>h l. (h, l) \<in> set hm \<and> 1 < length l \<and> j = l ! 0
              \<and> (\<exists>t. 1 \<le> t \<and> t < length l \<and> i = l ! t)"
    using hl t ji by blast
next
  assume "\<exists>h l. (h, l) \<in> set hm \<and> 1 < length l \<and> j = l ! 0
              \<and> (\<exists>t. 1 \<le> t \<and> t < length l \<and> i = l ! t)"
  then obtain h l t where hl: "(h, l) \<in> set hm" "1 < length l"
    and t: "1 \<le> t" "t < length l" and ji: "j = l ! 0" "i = l ! t"
    by blast
  have "(h, l) \<in> set (dup_candidates hm)" using hl by (simp add: dup_candidates_def)
  moreover have "(j, i) \<in> set (map (\<lambda>t. (l ! 0, l ! t)) [1..<length l])"
    using t ji by auto
  ultimately show "(j, i) \<in> set (dup_pairs (dup_candidates hm))"
    unfolding dup_pairs_def by force
qed

lemma filter_first:
  assumes "j < n" "Q j" "\<forall>k<j. \<not> Q k"
  shows "filter Q [0..<n] = j # filter Q [Suc j..<n]"
proof -
  have "[0..<n] = [0..<j] @ j # [Suc j..<n]"
    using assms(1) by (metis le_add2 less_imp_add_positive upt_add_eq_append upt_conv_Cons zero_le add_0)
  moreover have "filter Q [0..<j] = []" using assms(3) by (simp add: filter_empty_conv)
  ultimately show ?thesis using assms(2) by simp
qed

lemma same_hash_truthy: "hash f = hash g \<Longrightarrow> hash_truthy f = hash_truthy g"
  by (simp add: hash_truthy_def)

lemma dup_pairs_char:
  assumes wf: "frames_indexed fs"
  shows "(j, i) \<in> set (dup_pairs (dup_candidates (build_hash_map fs)))
     \<longleftrightarrow> i < length fs \<and> hash_truthy (fs ! i) \<and> j < i \<and> hash (fs ! j) = hash (fs ! i)
         \<and> (\<forall>k<j. hash (fs ! k) \<noteq> hash (fs ! i))"
    (is "?L \<longleftrightarrow> ?R")
proof
  assume ?L
  then obtain h l t where hl: "(h, l) \<in> set (build_hash_map fs)" "1 < length l"
    and t: "1 \<le> t" "t < length l" and ji: "j = l ! 0" "i = l ! t"
    unfolding dup_pairs_mem by blast
  have l: "l = hash_positions fs h" using hl(1) hash_map_entry[OF wf] by simp
  have srt: "sorted_wrt (<) l" unfolding l by (rule hash_positions_sorted)
  have "0 < length l" using hl(2) by (cases l) simp_all
  then have jl: "j \<in> set l" unfolding ji by (rule nth_mem)
  have il: "i \<in> set l" unfolding ji using t(2) by (rule nth_mem)
  from jl il have jq: "j < length fs" "hash (fs ! j) = Some h"
    and iq: "i < length fs" "hash_truthy (fs ! i)" "hash (fs ! i) = Some h"
    unfolding l hash_positions_mem by simp_all
  have lt: "j < i" using sorted_wrt_nth_less[OF srt, of 0 t] t ji by simp
  have first: "hash (fs ! k) \<noteq> hash (fs ! i)" if k: "k < j" for k
  proof
    assume eq: "hash (fs ! k) = hash (fs ! i)"
    then have "hash_truthy (fs ! k)" using iq(2) same_hash_truthy by blast
    then have "k \<in> set l" unfolding l hash_positions_mem using eq iq k jq by simp
    then obtain s where s: "s < length l" "l ! s = k" unfolding in_set_conv_nth by blast
    have "l ! 0 \<le> l ! s"
    proof (cases s)
      case 0
      then show ?thesis by simp
    next
      case (Suc s')
      then show ?thesis using sorted_wrt_nth_less[OF srt, of 0 s] s by simp
    qed
    then show False using s ji k by simp
  qed
  show ?R using iq lt jq first by simp
next
  assume r: ?R
  then obtain h where h: "hash (fs ! i) = Some h"
    by (auto simp: hash_truthy_def split: option.splits)
  let ?Q = "\<lambda>p. hash_truthy (fs ! p) \<and> hash (fs ! p) = Some h"
  let ?l = "hash_positions fs h"
  have qi: "?Q i" using r h by simp
  have qj: "?Q j" using r h same_hash_truthy[of "fs ! j" "fs ! i"] by simp
  have nq: "\<forall>k<j. \<not> ?Q k" using r h by auto
  have jn: "j < length fs" using r by simp
  have l: "?l = j # filter ?Q [Suc j..<length fs]"
    unfolding hash_positions_def by (rule filter_first[OF jn qj nq])
  have "i \<in> set (filter ?Q [Suc j..<length fs])" using r qi by simp
  then obtain s where s: "s < length (filter ?Q [Suc j..<length fs])"
      "filter ?Q [Suc j..<length fs] ! s = i"
    unfolding in_set_conv_nth by blast
  have ent: "(h, ?l) \<in> set (build_hash_map fs)" using hash_map_entry[OF wf] l by simp
  have "0 < length (filter ?Q [Suc j..<length fs])" using s(1) by linarith
  then have "1 < length ?l" unfolding l by (simp del: length_greater_0_conv)
  moreover have "j = ?l ! 0" using l by simp
  moreover have "1 \<le> Suc s \<and> Suc s < length ?l \<and> i = ?l ! Suc s" using l s by simp
  ultimately show ?L unfolding dup_pairs_mem using ent by blast
qed

lemma map_nth_tl: "map ((!) l) [1..<length l] = tl l"
proof (cases l)
  case Nil
  then show ?thesis by simp
next
  case (Cons x xs)
  have "[1..<length (x # xs)] = map Suc [0..<length xs]"
    by (simp add: map_Suc_upt)
  then have "map ((!) (x # xs)) [1..<length (x # xs)] = map ((!) xs) [0..<length xs]"
    by (simp add: comp_def)
  then show ?thesis using Cons by (simp add: map_nth)
qed

lemma map_snd_dup_pairs: "map snd (dup_pairs cands) = concat (map (\<lambda>(h, l). tl l) cands)"
proof -
  have "map snd (map (\<lambda>i. (l ! 0, l ! i)) [1..<length l]) = tl l" for l :: "nat list"
    using map_nth_tl[of l] by (simp add: comp_def)
  then show ?thesis
    by (simp add: dup_pairs_def map_concat comp_def case_prod_unfold)
qed

lemma hash_map_add_concat:
  "set (concat (map snd (hash_map_add hm h i))) = insert i (set (concat (map snd hm)))
   \<and> (distinct (concat (map snd hm)) \<and> i \<notin> set (concat (map snd hm))
        \<longrightarrow> distinct (concat (map snd (hash_map_add hm h i))))"
proof (induction hm)
  case Nil
  then show ?case by (simp add: hash_map_add_def dict_get_def)
next
  case (Cons p hm)
  obtain k l where p: "p = (k, l)" by (cases p)
  show ?case
  proof (cases "k = h")
    case True
    then show ?thesis using p by (auto simp: hash_map_add_def dict_get_def)
  next
    case False
    then have "hash_map_add (p # hm) h i = p # hash_map_add hm h i"
      using p by (simp add: hash_map_add_def dict_get_def)
    then show ?thesis using Cons.IH p by auto
  qed
qed

lemma build_hash_map_concat:
  assumes "distinct (map index fs)"
  shows "distinct (concat (map snd (build_hash_map fs)))
     \<and> set (concat (map snd (build_hash_map fs))) \<subseteq> index ` set fs"
  using assms
proof (induction fs rule: rev_induct)
  case Nil
  then show ?case by (simp add: build_hash_map_def)
next
  case (snoc f fs)
  then have ih: "distinct (concat (map snd (build_hash_map fs)))"
      "set (concat (map snd (build_hash_map fs))) \<subseteq> index ` set fs"
    and new: "index f \<notin> index ` set fs" by auto
  show ?case
  proof (cases "hash_truthy f")
    case False
    then show ?thesis using ih by (auto simp: build_hash_map_snoc)
  next
    case True
    have "index f \<notin> set (concat (map snd (build_hash_map fs)))" using ih(2) new by blast
    then show ?thesis
      using True ih hash_map_add_concat[of "build_hash_map fs" "the (hash f)" "index f"]
      by (auto simp: build_hash_map_snoc)
  qed
qed

lemma tl_filter_subset:
  "set (concat (map (\<lambda>(h, l). tl l) (filter P al))) \<subseteq> set (concat (map snd al))"
proof
  fix x assume "x \<in> set (concat (map (\<lambda>(h, l). tl l) (filter P al)))"
  then obtain p where p: "p \<in> set al" "x \<in> set (tl (snd p))"
    by (auto simp: case_prod_unfold)
  then have "x \<in> set (snd p)" by (cases "snd p") auto
  then show "x \<in> set (concat (map snd al))" using p(1) by auto
qed

lemma tl_filter_distinct:
  "distinct (concat (map snd al)) \<Longrightarrow> distinct (concat (map (\<lambda>(h, l). tl l) (filter P al)))"
proof (induction al)
  case Nil
  then show ?case by simp
next
  case (Cons p al)
  obtain h l where p: "p = (h, l)" by (cases p)
  have sub: "set (tl l) \<subseteq> set l" by (cases l) auto
  have dl: "distinct (tl l)" using Cons.prems p by (simp add: distinct_tl)
  have ih: "distinct (concat (map (\<lambda>(h, l). tl l) (filter P al)))"
    using Cons by simp
  have disj: "set l \<inter> set (concat (map snd al)) = {}" using Cons.prems p by auto
  have "set (tl l) \<inter> set (concat (map (\<lambda>(h, l). tl l) (filter P al))) = {}"
    using sub disj tl_filter_subset[of P al] by blast
  then show ?case using p ih dl by simp
qed

lemma frames_indexed_distinct: "frames_indexed fs \<Longrightarrow> distinct (map index fs)"
  by (simp add: frames_indexed_def)

lemma dup_pairs_distinct:
  assumes "frames_indexed fs"
  shows "distinct (map snd (dup_pairs (dup_candidates (build_hash_map fs))))"
  unfolding map_snd_dup_pairs dup_candidates_def
  by (rule tl_filter_distinct)
     (use build_hash_map_concat[OF frames_indexed_distinct[OF assms]] in simp)

lemma dup_pairs_in_range:
  assumes "frames_indexed fs"
  shows "\<forall>(j, i)\<in>set (dup_pairs (dup_candidates (build_hash_map fs))). j < length fs \<and> i < length fs"
  using dup_pairs_char[OF assms] by auto

lemma pair_confirmation_iff:
  assumes "0 < SIFT_MIN_MATCH_COUNT cfg"
  shows "pair_confirmation cfg env p1 p2 \<noteq> None \<longleftrightarrow> pair_confirmed cfg env p1 p2"
proof -
  let ?r = "compare_sift_enhanced cfg env p1 p2"
  have keys: "(case (inliers ?r, good_matches ?r, inlier_ratio ?r) of
                 (Some a, Some b, Some c) \<Rightarrow> Some (s, a, b, c, visualization_path ?r)
               | _ \<Rightarrow> None) \<noteq> None"
    if su: "success ?r" and inl: "(case inliers ?r of None \<Rightarrow> 0 | Some k \<Rightarrow> k) \<ge> SIFT_MIN_MATCH_COUNT cfg" for s :: real
  proof -
    obtain a where a: "inliers ?r = Some a" using inl assms by (cases "inliers ?r") auto
    obtain b where b: "good_matches ?r = Some b"
      using su sift_success_good[of cfg env p1 p2] by auto
    obtain c where c: "inlier_ratio ?r = Some c" using sift_inliers_ratio[OF a] by auto
    show ?thesis by (simp add: a b c)
  qed
  show ?thesis
    unfolding pair_confirmation_def pair_confirmed_def Let_def
    using keys by (auto split: option.splits)
qed

lemma keeps_identity_refl: "keeps_identity f f"
  by (simp add: keeps_identity_def)

lemma keeps_identity_trans: "keeps_identity f g \<Longrightarrow> keeps_identity g h \<Longrightarrow> keeps_identity f h"
  by (auto simp: keeps_identity_def)

lemma flow_check_keeps: "keeps_identity f (flow_check cfg env md mad f)"
  by (simp add: flow_check_def keeps_identity_def set_metric_def add_reason_def Let_def
      split: option.splits)

lemma ssim_check_keeps: "keeps_identity f (ssim_check cfg env p f)"
  by (simp add: ssim_check_def keeps_identity_def set_metric_def add_reason_def Let_def
      split: option.splits)

lemma scene_check_keeps: "keeps_identity f (scene_check p f)"
  by (simp add: scene_check_def keeps_identity_def set_metric_def add_reason_def Let_def
      split: option.splits)

lemma list_all2_keeps_refl: "list_all2 keeps_identity fs fs"
  by (simp add: list_all2_refl keeps_identity_refl)

lemma flow_pass_keeps: "list_all2 keeps_identity fs (flow_pass cfg env fs)"
  by (auto simp: flow_pass_def Let_def list_all2_keeps_refl list_all2_map2 flow_check_keeps
      intro: list_all2_refl)

lemma pairwise_loop_keeps:
  assumes "\<And>p f. keeps_identity f (check p f)"
  shows "list_all2 keeps_identity fs (pairwise_loop check p fs)"
  by (induction fs arbitrary: p) (simp_all add: Let_def assms)

lemma pairwise_pass_keeps:
  assumes "\<And>p f. keeps_identity f (check p f)"
  shows "list_all2 keeps_identity fs (pairwise_pass check fs)"
  by (cases fs) (simp_all add: pairwise_pass_def pairwise_loop_keeps[OF assms] keeps_identity_refl)

lemma evidence_passes_keep:
  "list_all2 keeps_identity fs (scene_pass (ssim_pass cfg env (flow_pass cfg env fs)))"
proof -
  have a: "list_all2 keeps_identity fs (flow_pass cfg env fs)" by (rule flow_pass_keeps)
  have b: "list_all2 keeps_identity (flow_pass cfg env fs) (ssim_pass cfg env (flow_pass cfg env fs))"
    unfolding ssim_pass_def by (rule pairwise_pass_keeps) (rule ssim_check_keeps)
  have c: "list_all2 keeps_identity (ssim_pass cfg env (flow_pass cfg env fs))
             (scene_pass (ssim_pass cfg env (flow_pass cfg env fs)))"
    unfolding scene_pass_def by (rule pairwise_pass_keeps) (rule scene_check_keeps)
  have t: "\<And>x y z. keeps_identity x y \<Longrightarrow> keeps_identity y z \<Longrightarrow> keeps_identity x z"
    by (rule keeps_identity_trans)
  show ?thesis
    using list_all2_trans[OF t list_all2_trans[OF t a b] c] by simp
qed

lemma keeps_indexed:
  assumes "list_all2 keeps_identity fs gs" "frames_indexed fs"
  shows "frames_indexed gs"
proof -
  have "map index gs = map index fs"
    using assms(1) by (induction rule: list_all2_induct) (simp_all add: keeps_identity_def)
  then show ?thesis using assms list_all2_lengthD[OF assms(1)] by (simp add: frames_indexed_def)
qed

lemma duplication_pass_result:
  assumes wf: "frames_indexed fs" and m: "0 < SIFT_MIN_MATCH_COUNT cfg"
  shows "\<exists>fs'. duplication_pass cfg env fs = Inr fs' \<and> length fs' = length fs
     \<and> (\<forall>i<length fs.
           (\<forall>j. \<not> (hash_truthy (fs ! i) \<and> j < i \<and> hash (fs ! j) = hash (fs ! i)
                     \<and> (\<forall>k<j. hash (fs ! k) \<noteq> hash (fs ! i))))
           \<longrightarrow> fs' ! i = fs ! i)
     \<and> (\<forall>i<length fs. \<forall>j.
           hash_truthy (fs ! i) \<and> j < i \<and> hash (fs ! j) = hash (fs ! i)
           \<and> (\<forall>k<j. hash (fs ! k) \<noteq> hash (fs ! i))
           \<longrightarrow> fs' ! i = verified_frame cfg env j (img_path_original (fs ! j)) (fs ! i))"
proof -
  let ?ps = "dup_pairs (dup_candidates (build_hash_map fs))"
  from verify_pairs_result[OF dup_pairs_distinct[OF wf] dup_pairs_in_range[OF wf] m, of env]
  obtain fs' where r: "verify_pairs cfg env ?ps fs = Inr fs'" and len: "length fs' = length fs"
    and same: "\<forall>i<length fs. (\<forall>j. (j, i) \<notin> set ?ps) \<longrightarrow> fs' ! i = fs ! i"
    and upd: "\<forall>(j, i)\<in>set ?ps. fs' ! i = verified_frame cfg env j (img_path_original (fs ! j)) (fs ! i)"
    by blast
  have a: "fs' ! i = fs ! i"
    if "i < length fs" "\<forall>j. \<not> (hash_truthy (fs ! i) \<and> j < i \<and> hash (fs ! j) = hash (fs ! i)
                     \<and> (\<forall>k<j. hash (fs ! k) \<noteq> hash (fs ! i)))" for i
  proof -
    have "\<forall>j. (j, i) \<notin> set ?ps" using that(2) dup_pairs_char[OF wf] by blast
    then show ?thesis using same that(1) by simp
  qed
  have b: "fs' ! i = verified_frame cfg env j (img_path_original (fs ! j)) (fs ! i)"
    if "i < length fs" "hash_truthy (fs ! i) \<and> j < i \<and> hash (fs ! j) = hash (fs ! i)
           \<and> (\<forall>k<j. hash (fs ! k) \<noteq> hash (fs ! i))" for i j
  proof -
    have "(j, i) \<in> set ?ps" using that dup_pairs_char[OF wf] by blast
    then show ?thesis using upd by blast
  qed
  show ?thesis
    unfolding duplication_pass_def using r len a b by blast
qed

lemma first_same_hash_iff:
  assumes "i < length fs"
  shows "first_same_hash fs j i
     \<longleftrightarrow> hash_truthy (fs ! i) \<and> j < i \<and> hash (fs ! j) = hash (fs ! i)
         \<and> (\<forall>k<j. hash (fs ! k) \<noteq> hash (fs ! i))"
proof (cases "j < i")
  case False
  then show ?thesis by (simp add: first_same_hash_def)
next
  case True
  then have jl: "j \<le> length fs" using assms by simp
  have "hash (fs ! i) \<in> set (map hash (take j fs)) \<longleftrightarrow> (\<exists>k<j. hash (fs ! k) = hash (fs ! i))"
  proof
    assume "hash (fs ! i) \<in> set (map hash (take j fs))"
    then obtain x where x: "x \<in> set (take j fs)" "hash x = hash (fs ! i)" by auto
    from x(1) obtain k where "k < length (take j fs)" "take j fs ! k = x"
      unfolding in_set_conv_nth by blast
    with x(2) have "k < length (take j fs)" "hash (take j fs ! k) = hash (fs ! i)" by simp_all
    then show "\<exists>k<j. hash (fs ! k) = hash (fs ! i)" using jl by auto
  next
    assume "\<exists>k<j. hash (fs ! k) = hash (fs ! i)"
    then obtain k where k: "k < j" "hash (fs ! k) = hash (fs ! i)" by blast
    then have "take j fs ! k = fs ! k" "k < length (take j fs)" using jl by simp_all
    then have "fs ! k \<in> set (take j fs)" by (metis nth_mem)
    then have "hash (fs ! k) \<in> hash ` set (take j fs)" by (rule imageI)
    then show "hash (fs ! i) \<in> set (map hash (take j fs))" using k(2) by simp
  qed
  then show ?thesis unfolding first_same_hash_def by auto
qed

lemma keeps_first_same_hash:
  assumes ka: "list_all2 keeps_identity fs gs" and i: "i < length fs"
  shows "first_same_hash gs j i = first_same_hash fs j i"
proof (cases "j < i")
  case False
  then show ?thesis by (simp add: first_same_hash_def)
next
  case True
  have len: "length gs = length fs" using ka by (simp add: list_all2_lengthD)
  have h: "hash (gs ! k) = hash (fs ! k)" if "k < length fs" for k
    using list_all2_nthD[OF ka that] by (simp add: keeps_identity_def)
  have hi: "hash (gs ! i) = hash (fs ! i)" by (rule h[OF i])
  have hj: "hash (gs ! j) = hash (fs ! j)" using h True i by simp
  have hk: "hash (gs ! k) = hash (fs ! k)" if "k < j" for k using h that True i by simp
  have t: "hash_truthy (gs ! i) = hash_truthy (fs ! i)"
    using hi by (simp add: hash_truthy_def)
  have ig: "i < length gs" using i len by simp
  show ?thesis
    unfolding first_same_hash_iff[OF i] first_same_hash_iff[OF ig] t hi hj
    by (simp add: hk)
qed

lemma stage3_frame:
  assumes wf: "frames_indexed (frames result)" and n2: "2 \<le> length (frames result)"
    and m: "0 < SIFT_MIN_MATCH_COUNT cfg"
  shows "\<exists>r fs3. run_tahap_3_sintesis_bukti cfg env result = Inr r
     \<and> length (frames r) = length (frames result)
     \<and> list_all2 keeps_identity (frames result) fs3
     \<and> (\<forall>i<length (frames result).
           ((\<forall>j. \<not> first_same_hash (frames result) j i)
              \<longrightarrow> frames r ! i = join_reasons (synthesize_frame env (fs3 ! i)))
           \<and> (\<forall>j. first_same_hash (frames result) j i
              \<longrightarrow> frames r ! i
                  = join_reasons (synthesize_frame env
                      (verified_frame cfg env j (img_path_original (frames result ! j)) (fs3 ! i)))))"
proof -
  let ?fs = "frames result"
  let ?fs3 = "scene_pass (ssim_pass cfg env (flow_pass cfg env ?fs))"
  have ka: "list_all2 keeps_identity ?fs ?fs3" by (rule evidence_passes_keep)
  have len3: "length ?fs3 = length ?fs" using ka by (simp add: list_all2_lengthD)
  have wf3: "frames_indexed ?fs3" by (rule keeps_indexed[OF ka wf])
  from duplication_pass_result[OF wf3 m, of env] obtain fs4 where
    d: "duplication_pass cfg env ?fs3 = Inr fs4" and len4: "length fs4 = length ?fs3"
    and same: "\<forall>i<length ?fs3.
           (\<forall>j. \<not> (hash_truthy (?fs3 ! i) \<and> j < i \<and> hash (?fs3 ! j) = hash (?fs3 ! i)
                     \<and> (\<forall>k<j. hash (?fs3 ! k) \<noteq> hash (?fs3 ! i))))
           \<longrightarrow> fs4 ! i = ?fs3 ! i"
    and upd: "\<forall>i<length ?fs3. \<forall>j.
           hash_truthy (?fs3 ! i) \<and> j < i \<and> hash (?fs3 ! j) = hash (?fs3 ! i)
           \<and> (\<forall>k<j. hash (?fs3 ! k) \<noteq> hash (?fs3 ! i))
           \<longrightarrow> fs4 ! i = verified_frame cfg env j (img_path_original (?fs3 ! j)) (?fs3 ! i)"
    by blast
  let ?r = "result\<lparr>frames := map join_reasons (map (synthesize_frame env) fs4),
              confidence_distribution :=
                confidence_levels (map join_reasons (map (synthesize_frame env) fs4))\<rparr>"
  have run: "run_tahap_3_sintesis_bukti cfg env result = Inr ?r"
    using n2 d by (simp add: run_tahap_3_sintesis_bukti_def Let_def)
  have lenr: "length (frames ?r) = length ?fs" using len4 len3 by simp
  have per: "((\<forall>j. \<not> first_same_hash ?fs j i)
              \<longrightarrow> frames ?r ! i = join_reasons (synthesize_frame env (?fs3 ! i)))
           \<and> (\<forall>j. first_same_hash ?fs j i
              \<longrightarrow> frames ?r ! i
                  = join_reasons (synthesize_frame env
                      (verified_frame cfg env j (img_path_original (?fs ! j)) (?fs3 ! i))))"
    if i: "i < length ?fs" for i
  proof -
    have i3: "i < length ?fs3" using i len3 by simp
    have nth: "frames ?r ! i = join_reasons (synthesize_frame env (fs4 ! i))"
      using i len3 len4 by simp
    have f3: "first_same_hash ?fs3 j i = first_same_hash ?fs j i" for j
      by (rule keeps_first_same_hash[OF ka i])
    have c3: "first_same_hash ?fs3 j i
       \<longleftrightarrow> hash_truthy (?fs3 ! i) \<and> j < i \<and> hash (?fs3 ! j) = hash (?fs3 ! i)
           \<and> (\<forall>k<j. hash (?fs3 ! k) \<noteq> hash (?fs3 ! i))" for j
      by (rule first_same_hash_iff[OF i3])
    show ?thesis
    proof (intro conjI impI allI)
      assume "\<forall>j. \<not> first_same_hash ?fs j i"
      then have "\<forall>j. \<not> first_same_hash ?fs3 j i" using f3 by simp
      then have "fs4 ! i = ?fs3 ! i" using same i3 c3 by blast
      then show "frames ?r ! i = join_reasons (synthesize_frame env (?fs3 ! i))"
        using nth by simp
    next
      fix j assume "first_same_hash ?fs j i"
      then have fj: "first_same_hash ?fs3 j i" using f3 by simp
      then have "j < length ?fs" using c3 i by auto
      then have pj: "img_path_original (?fs3 ! j) = img_path_original (?fs ! j)"
        using list_all2_nthD[OF ka] by (simp add: keeps_identity_def)
      have "fs4 ! i = verified_frame cfg env j (img_path_original (?fs3 ! j)) (?fs3 ! i)"
        using upd i3 fj c3 by blast
      then show "frames ?r ! i
                  = join_reasons (synthesize_frame env
                      (verified_frame cfg env j (img_path_original (?fs ! j)) (?fs3 ! i)))"
        using nth pj by simp
    qed
  qed
  show ?thesis using run lenr ka per by blast
qed

lemma fold_min_le: "fold min xs (a::nat) \<le> a"
proof (induction xs arbitrary: a)
  case Nil
  then show ?case by simp
next
  case (Cons x xs)
  have "fold min xs (min x a) \<le> min x a" by (rule Cons.IH)
  also have "min x a \<le> a" by simp
  finally show ?case by simp
qed

lemma le_fold_max: "(a::nat) \<le> fold max xs a"
proof (induction xs arbitrary: a)
  case Nil
  then show ?case by simp
next
  case (Cons x xs)
  have "a \<le> max x a" by simp
  also have "max x a \<le> fold max xs (max x a)" by (rule Cons.IH)
  finally show ?case by simp
qed

lemma fold_max_mono: "(a::nat) \<le> b \<Longrightarrow> fold max xs a \<le> fold max xs b"
proof (induction xs arbitrary: a b)
  case Nil
  then show ?case by simp
next
  case (Cons x xs)
  have "max x a \<le> max x b" using Cons.prems by simp
  then have "fold max xs (max x a) \<le> fold max xs (max x b)" by (rule Cons.IH)
  then show ?case by simp
qed

lemma img_min_le_max: "img_min im \<le> img_max im"
proof (cases "concat im")
  case Nil
  show ?thesis unfolding img_min_def img_max_def Nil by simp
next
  case (Cons p ps)
  have "fold min ps p \<le> p" by (rule fold_min_le)
  also have "p \<le> fold max ps p" by (rule le_fold_max)
  also have "\<dots> \<le> fold max ps (max p 0)" by (rule fold_max_mono) simp
  finally show ?thesis unfolding img_min_def img_max_def Cons by simp
qed

lemma join_reasons_fields:
  "frame_type (join_reasons f) = frame_type f"
  "confidence (evidence_obj (join_reasons f)) = confidence (evidence_obj f)"
  "metrics (evidence_obj (join_reasons f)) = metrics (evidence_obj f)"
  "index (join_reasons f) = index f"
  by (simp_all add: join_reasons_def)

lemma join_reasons_reasons:
  "reasons (evidence_obj (join_reasons f)) = sort (remdups (reasons (evidence_obj f)))"
  by (simp add: join_reasons_def)

lemma mark_duplicate_type:
  "frame_type (mark_duplicate env j s a b c v f) = anomaly_duplication"
  by (simp add: mark_duplicate_def Let_def set_metric_def add_reason_def del: str_nat.simps
      split: option.splits)

lemma mark_duplicate_reasons:
  "reasons (evidence_obj (mark_duplicate env j s a b c v f))
     = reasons (evidence_obj f) @ [''Duplikasi dari frame '' @ str_nat j]"
  by (simp add: mark_duplicate_def Let_def set_metric_def add_reason_def del: str_nat.simps
      split: option.splits)

lemma mark_duplicate_confidence:
  "confidence (evidence_obj (mark_duplicate env j s a b c v f)) = confidence (evidence_obj f)"
  by (simp add: mark_duplicate_def Let_def set_metric_def add_reason_def del: str_nat.simps
      split: option.splits)

lemma mark_duplicate_source:
  "map_of (metrics (evidence_obj (mark_duplicate env j s a b c v f))) ''source_frame''
     = Some (MNum (real j))"
  by (simp add: mark_duplicate_def Let_def set_metric_def add_reason_def update_conv'
      del: str_nat.simps split: option.splits)

lemma verified_frame_confirmed:
  assumes "0 < SIFT_MIN_MATCH_COUNT cfg" "pair_confirmed cfg env p (img_path_original f)"
  shows "frame_type (verified_frame cfg env j p f) = anomaly_duplication"
    "reasons (evidence_obj (verified_frame cfg env j p f))
       = reasons (evidence_obj f) @ [''Duplikasi dari frame '' @ str_nat j]"
    "confidence (evidence_obj (verified_frame cfg env j p f)) = confidence (evidence_obj f)"
    "map_of (metrics (evidence_obj (verified_frame cfg env j p f))) ''source_frame''
       = Some (MNum (real j))"
proof -
  from assms obtain d where "pair_confirmation cfg env p (img_path_original f) = Some d"
    using pair_confirmation_iff[OF assms(1), of env p "img_path_original f"] by auto
  then show "frame_type (verified_frame cfg env j p f) = anomaly_duplication"
    "reasons (evidence_obj (verified_frame cfg env j p f))
       = reasons (evidence_obj f) @ [''Duplikasi dari frame '' @ str_nat j]"
    "confidence (evidence_obj (verified_frame cfg env j p f)) = confidence (evidence_obj f)"
    "map_of (metrics (evidence_obj (verified_frame cfg env j p f))) ''source_frame''
       = Some (MNum (real j))"
    by (simp_all add: verified_frame_def mark_duplicate_type mark_duplicate_reasons
        mark_duplicate_confidence mark_duplicate_source del: str_nat.simps split: prod.splits)
qed

lemma verified_frame_unconfirmed:
  assumes "0 < SIFT_MIN_MATCH_COUNT cfg" "\<not> pair_confirmed cfg env p (img_path_original f)"
  shows "verified_frame cfg env j p f = f"
  using assms pair_confirmation_iff[OF assms(1), of env p "img_path_original f"]
  by (cases "pair_confirmation cfg env p (img_path_original f)") (simp_all add: verified_frame_def)

lemma synthesize_metrics_fixed:
  assumes "frame_type f = anomaly_duplication \<or> frame_type f = anomaly_insertion"
  shows "metrics (evidence_obj (synthesize_frame env f)) = metrics (evidence_obj f)"
  using assms by (auto simp: synthesize_frame_def Let_def set_confidence_def)

subsection \<open>Float literals and the example frames\<close>

lemma float_literals:
  "float_0_30 < 0.30 \<and> 0.30 - float_0_30 < 1 / 10 ^ 16"
  "float_0_7 < 0.7 \<and> 0.7 - float_0_7 < 1 / 10 ^ 16"
  "0.80 < float_0_80 \<and> float_0_80 - 0.80 < 1 / 10 ^ 16"
  by (simp_all add: float_0_30_def float_0_7_def float_0_80_def)

lemma mk_frame_fields:
  "ssim_to_prev (mk_frame i h s fl c) = s"
  "reasons (evidence_obj (mk_frame i h s fl c)) = []"
  by (simp_all add: mk_frame_def empty_evidence_def del: str_nat.simps)

lemma ex_ssim_frames_nth:
  "length ex_ssim_frames = 4"
  "ex_ssim_frames ! 0 = mk_frame 0 ''a0'' (Some 1) (Some 0) (Some 0)"
  "ex_ssim_frames ! 1 = mk_frame 1 ''a1'' (Some 0.5) (Some 0.5) (Some 0)"
  "ex_ssim_frames ! Suc 0 = mk_frame 1 ''a1'' (Some 0.5) (Some 0.5) (Some 0)"
  "ex_ssim_frames ! 2 = mk_frame 2 ''a2'' (Some 0.5) (Some 0.5) (Some 0)"
  "ex_ssim_frames ! 3 = mk_frame 3 ''a3'' (Some 0.75) (Some 0.5) (Some 0)"
  by (simp_all add: ex_ssim_frames_def)

subsection \<open>The ELA check on the example strips\<close>

lemma concat_replicate_triple: "concat (replicate n [v, v, v]) = replicate (3 * n) v"
  by (induction n) (simp_all add: replicate_add numeral_3_eq_3)

lemma region_values_strip:
  "region_values (ela_strip w v) 0 x 50 = replicate (3 * (min (x + 50) w - x)) v"
proof -
  have "min (min (x + 50) w - x) (w - x) = min (x + 50) w - x" by arith
  then show ?thesis
    by (simp add: region_values_def ela_strip_def shape_def concat_replicate_triple)
qed

lemma upt_0_3: "[0..<3] = [0, 1, 2::nat]"
  by (simp add: upt_rec)

lemma grid_cells_strip:
  "grid_cells (ela_strip 251 v) 50 = [(0, 0), (0, 50), (0, 100), (0, 150), (0, 200), (0, 250)]"
  "grid_cells (ela_strip 101 v) 50 = [(0, 0), (0, 50), (0, 100)]"
  by (simp_all add: grid_cells_def range_step_def shape_def ela_strip_def upt_0_6 upt_0_3)

lemma strip_wellformed:
  "\<forall>row\<in>set (ela_strip w v). length row = snd (shape (ela_strip w v))"
  "\<forall>row\<in>set (ela_strip w v). \<forall>px\<in>set row. px \<noteq> []"
  by (auto simp: ela_strip_def shape_def)

lemma strip_count:
  "suspicious_count (analyze_ela_regions (ela_strip 251 200) 50) = 6"
  "suspicious_count (analyze_ela_regions (ela_strip 101 200) 50) = 3"
  "suspicious_count (analyze_ela_regions (ela_strip 251 0) 50) = 0"
  by (simp_all add: suspicious_count_filter grid_cells_strip region_suspicious_def
      region_values_strip mean_val_replicate max_val_replicate Let_def)

lemma suspicious_regions_cells:
  "map (\<lambda>r. (region_y r, region_x r)) (suspicious_regions (analyze_ela_regions arr g))
     = filter (region_suspicious arr g) (grid_cells arr g)"
proof -
  have "map (\<lambda>r. (region_y r, region_x r)) (suspicious_regions (analyze_ela_regions arr g))
     = map (\<lambda>c. c) (filter (region_suspicious arr g) (grid_cells arr g))"
    by (simp add: analyze_ela_regions_def Let_def split: prod.splits) (simp add: comp_def case_prod_beta Let_def)
  then show ?thesis by simp
qed

lemma filter_suspicious_cells:
  assumes rect: "\<forall>row\<in>set arr. length row = snd (shape arr)"
    and chans: "\<forall>row\<in>set arr. \<forall>px\<in>set row. px \<noteq> []"
  shows "filter (region_suspicious arr 50) (grid_cells arr 50)
     = filter (cell_suspicious arr) (grid_cells arr 50)"
proof (rule filter_cong[OF refl])
  fix c assume "c \<in> set (grid_cells arr 50)"
  then show "region_suspicious arr 50 c = cell_suspicious arr c"
    using region_suspicious_iff[of 50 arr c] rect chans by (simp add: cell_suspicious_def)
qed

lemma ela_env_perform:
  "perform_ela (ela_env w v) p = Some (''ela.jpg'', v, ela_strip w v)"
  by (simp add: ela_env_def)

lemma ex_scene_stage:
  "map_option (map (\<lambda>f. (frame_type f, reasons (evidence_obj f), confidence (evidence_obj f))))
     (stage_frames (run_tahap_3_sintesis_bukti CONFIG (ela_env 251 200) (mk_result ex_scene_frames)))
   = Some [(original, [], NA),
           (anomaly_discontinuity,
            [ELA_REASON, ''Penurunan Drastis SSIM'', ''Perubahan Adegan (dari K-Means)''],
            TINGGI)]"
  "map_option (map (\<lambda>f. (frame_type f, reasons (evidence_obj f), confidence (evidence_obj f))))
     (stage_frames (run_tahap_3_sintesis_bukti CONFIG (ela_env 101 200) (mk_result ex_scene_frames)))
   = Some [(original, [], NA),
           (anomaly_discontinuity,
            [ELA_REASON, ''Penurunan Drastis SSIM'', ''Perubahan Adegan (dari K-Means)''],
            SEDANG)]"
  by (simp_all add: stage_frames_def run_tahap_3_sintesis_bukti_def mk_result_def
      ex_scene_frames_def ela_env_def
      mk_frame_def exact_env_def float_0_30_def float_0_7_def float_0_6745_def float_1e_9_def
      flow_pass_def flow_check_def median_def median_abs_deviation_def
      ssim_pass_def scene_pass_def pairwise_pass_def ssim_check_def scene_check_def
      CONFIG_def set_metric_def add_reason_def empty_evidence_def Let_def
      duplication_pass_def build_hash_map_def hash_truthy_def hash_map_add_def dict_get_def
      dup_candidates_def dup_pairs_def synthesize_frame_def count_confidence_def set_confidence_def
      join_reasons_def ela_check_def strip_count del: length_greater_0_conv)

lemma ex_medium_fields:
  "reasons (evidence_obj ex_medium)
     = [''Penurunan Drastis SSIM'', ''Perubahan Adegan (dari K-Means)'']"
  "confidence (evidence_obj ex_medium) = SEDANG"
  "metrics (evidence_obj ex_medium)
     = [(''ssim_drop'', MNum 0.5), (''color_cluster_jump'', MStr (''0'' @ arrow @ ''1''))]"
  "confidence (evidence_obj ex_high) = TINGGI"
  by (simp_all add: ex_medium_def ex_high_def)

section \<open>The claims\<close>

subsection \<open>C8: event severity\<close>

text \<open>
  Claim C8. For every localized event the severity score is
  base(type) * confidence multiplier * duration bonus * count bonus, clamped to [0,1],
  with the tables of the specification and the bonuses read from the event's stored
  duration and frame count; the score that stage 4 stores is this value at the duration
  it has just stored, the float difference of the end and start timestamps; and the
  score lies in [0,1].
\<close>

theorem C8_event_severity:
  "calculate_event_severity e =
     spec_severity (event e) (ev_confidence e)
       (case duration e of None \<Rightarrow> 0 | Some d \<Rightarrow> d) (frame_count e)
   \<and> duration (score_event env e) = Some (fsub env (end_ts e) (start_ts e))
   \<and> severity_score (score_event env e) =
       Some (spec_severity (event e) (ev_confidence e)
               (fsub env (end_ts e) (start_ts e)) (frame_count e))
   \<and> 0 \<le> calculate_event_severity e \<and> calculate_event_severity e \<le> 1"
  by (simp add: score_event_def Let_def calculate_event_severity_spec spec_severity_def)

text \<open>
  Twelve inserted frames over 2.75 seconds at the highest confidence:
  0.8 * 1.2 * 1.1 * 1.1 = 1.1616 is clamped to 1. The same event as a discontinuity of
  confidence MEDIUM: 0.5 * 0.8 * 1.1 * 1.1 = 0.484. Before the duration is stored the
  event has no duration bonus: 0.8 * 1.2 * 1.1 = 1.056, clamped to 1.
\<close>

theorem C8_event_severity_witness:
  "calculate_event_severity (ex_event\<lparr>duration := Some 2.75\<rparr>) = 1
   \<and> calculate_event_severity
       (ex_event\<lparr>event := anomaly_discontinuity, ev_confidence := SEDANG,
                 duration := Some 2.75\<rparr>) = 0.484
   \<and> duration (score_event exact_env ex_event) = Some 2.75
   \<and> severity_score (score_event exact_env ex_event) = Some 1
   \<and> calculate_event_severity ex_event = 1"
  using C8_event_severity[of "ex_event\<lparr>duration := Some 2.75\<rparr>" exact_env]
    C8_event_severity[of "ex_event\<lparr>event := anomaly_discontinuity, ev_confidence := SEDANG,
                 duration := Some 2.75\<rparr>" exact_env]
    C8_event_severity[of ex_event exact_env]
  by (simp add: ex_event_def exact_env_def spec_severity_def spec_base_def
      spec_confidence_multiplier_def spec_duration_bonus_def spec_count_bonus_def)

subsection \<open>C2: weighted false-positive risk\<close>

text \<open>
  Claim C2. The false-positive risk always lies in [0,1]. For every non-empty
  histogram of the four confidence labels with positive counts (a \<^verbatim>\<open>dict\<close>: its keys
  are distinct), the risk is the weighted average
  (VERY_HIGH * 0.05 + HIGH * 0.15 + MEDIUM * 0.30 + LOW * 0.50) / total, and the
  reliability score is 1 minus the risk.
\<close>

theorem C2_weighted_fp_risk:
  "0 \<le> weighted_fp_risk cd \<and> weighted_fp_risk cd \<le> 1
   \<and> (cd \<noteq> [] \<and> distinct (map fst cd)
        \<and> set (map fst cd) \<subseteq> {SANGAT_TINGGI, TINGGI, SEDANG, RENDAH}
        \<and> (\<forall>count\<in>set (map snd cd). 0 < count)
      \<longrightarrow> weighted_fp_risk cd
            = spec_fp_risk (dict_get cd SANGAT_TINGGI 0) (dict_get cd TINGGI 0)
                (dict_get cd SEDANG 0) (dict_get cd RENDAH 0)
          \<and> reliability_score cd
            = 1 - spec_fp_risk (dict_get cd SANGAT_TINGGI 0) (dict_get cd TINGGI 0)
                    (dict_get cd SEDANG 0) (dict_get cd RENDAH 0))"
proof (intro conjI impI)
  show "0 \<le> weighted_fp_risk cd" "weighted_fp_risk cd \<le> 1"
    using weighted_fp_risk_bounds[of cd] by simp_all
next
  assume h: "cd \<noteq> [] \<and> distinct (map fst cd)
        \<and> set (map fst cd) \<subseteq> {SANGAT_TINGGI, TINGGI, SEDANG, RENDAH}
        \<and> (\<forall>count\<in>set (map snd cd). 0 < count)"
  let ?K = "{SANGAT_TINGGI, TINGGI, SEDANG, RENDAH}"
  let ?w = "\<lambda>k. dict_get false_positive_risks k 0.5"
  from h have ne: "cd \<noteq> []" and d: "distinct (map fst cd)"
    and keys: "fst ` set cd \<subseteq> ?K" and cpos: "\<forall>count\<in>set (map snd cd). 0 < count"
    by simp_all
  obtain p ps where cd: "cd = p # ps" using ne by (cases cd) simp_all
  have "0 < snd p" using cpos cd by simp
  then have pos: "0 < sum_list (map snd cd)" using cd by simp
  have "sum_list (map (\<lambda>(k, c). real c * ?w k) cd)
        = (\<Sum>k \<in> fst ` set cd. real (dict_get cd k 0) * ?w k)"
    by (rule wsum_keys[OF d])
  also have "\<dots> = (\<Sum>k \<in> ?K. real (dict_get cd k 0) * ?w k)"
    by (rule sum.mono_neutral_left) (use keys in \<open>auto simp: dict_get_absent\<close>)
  also have "\<dots> = real (dict_get cd SANGAT_TINGGI 0) * 0.05 + real (dict_get cd TINGGI 0) * 0.15
      + real (dict_get cd SEDANG 0) * 0.30 + real (dict_get cd RENDAH 0) * 0.50"
    by (simp add: dict_get_def false_positive_risks_def)
  finally have num: "sum_list (map (\<lambda>(k, c). real c * ?w k) cd)
      = real (dict_get cd SANGAT_TINGGI 0) * 0.05 + real (dict_get cd TINGGI 0) * 0.15
        + real (dict_get cd SEDANG 0) * 0.30 + real (dict_get cd RENDAH 0) * 0.50" .
  have "sum_list (map snd cd) = (\<Sum>k \<in> fst ` set cd. dict_get cd k 0)"
    by (rule total_keys[OF d])
  also have "\<dots> = (\<Sum>k \<in> ?K. dict_get cd k 0)"
    by (rule sum.mono_neutral_left) (use keys in \<open>auto simp: dict_get_absent\<close>)
  also have "\<dots> = dict_get cd SANGAT_TINGGI 0 + dict_get cd TINGGI 0
      + dict_get cd SEDANG 0 + dict_get cd RENDAH 0"
    by simp
  finally have den: "sum_list (map snd cd) = dict_get cd SANGAT_TINGGI 0 + dict_get cd TINGGI 0
      + dict_get cd SEDANG 0 + dict_get cd RENDAH 0" .
  have risk: "weighted_fp_risk cd
      = spec_fp_risk (dict_get cd SANGAT_TINGGI 0) (dict_get cd TINGGI 0)
          (dict_get cd SEDANG 0) (dict_get cd RENDAH 0)"
    unfolding weighted_fp_risk_def spec_fp_risk_def using ne pos num den by simp
  show "weighted_fp_risk cd
      = spec_fp_risk (dict_get cd SANGAT_TINGGI 0) (dict_get cd TINGGI 0)
          (dict_get cd SEDANG 0) (dict_get cd RENDAH 0)"
    by (rule risk)
  show "reliability_score cd
      = 1 - spec_fp_risk (dict_get cd SANGAT_TINGGI 0) (dict_get cd TINGGI 0)
              (dict_get cd SEDANG 0) (dict_get cd RENDAH 0)"
    by (simp add: reliability_score_def risk)
qed

text \<open>The scenario of the specification: two VERY_HIGH and two LOW anomalies.\<close>

theorem C2_weighted_fp_risk_witness:
  "weighted_fp_risk [(SANGAT_TINGGI, 2), (RENDAH, 2)] = 0.275
   \<and> reliability_score [(SANGAT_TINGGI, 2), (RENDAH, 2)] = 0.725
   \<and> 0 \<le> weighted_fp_risk [(SANGAT_TINGGI, 2), (RENDAH, 2)]
   \<and> weighted_fp_risk [(SANGAT_TINGGI, 2), (RENDAH, 2)] \<le> 1"
  using C2_weighted_fp_risk[of "[(SANGAT_TINGGI, 2), (RENDAH, 2)]"]
  by (simp add: spec_fp_risk_def dict_get_def)

subsection \<open>C4: events are contiguous runs of one type\<close>

text \<open>
  Claim C4. For every frame sequence ordered by index, every event the localizer
  produces stands for a non-empty run of frames whose indices are exactly
  start, start + 1, ..., end, all of the event's type and all anomalous, and
  \<open>frame_count\<close> is their number; every anomalous frame lies in an event of its type;
  and no two neighbouring events could have been one (same type and the second starting
  right after the end of the first): any gap or change of type closes the open event,
  and nothing else does. The last part is the step of the scan itself: an anomalous
  frame extends the open event iff it has the event's type and its index is the event's
  end index plus 1; otherwise the open event is closed and a new one starts.
\<close>

theorem C4_events_contiguous:
  assumes srt: "sorted_wrt (<) (map index fs)"
  shows "(\<forall>e\<in>set (localize env fs).
            members e fs \<noteq> []
            \<and> map index (members e fs) = [start_frame e..<Suc (end_frame e)]
            \<and> (\<forall>f\<in>set (members e fs). frame_type f = event e \<and> is_anomaly f)
            \<and> frame_count e = length (members e fs))
         \<and> (\<forall>f\<in>set fs. is_anomaly f \<longrightarrow> (\<exists>e\<in>set (localize env fs). covers e f))
         \<and> separated (localize env fs)
         \<and> (\<forall>locs e f rest. is_anomaly f \<longrightarrow>
               localize_loop locs (Some e) (f # rest)
               = (if event e = frame_type f \<and> index f = end_frame e + 1
                  then localize_loop locs (Some (extend_event e f)) rest
                  else localize_loop (locs @ [e]) (Some (new_event f)) rest))"
proof -
  have runs: "members e fs \<noteq> []
            \<and> map index (members e fs) = [start_frame e..<Suc (end_frame e)]
            \<and> (\<forall>f\<in>set (members e fs). frame_type f = event e \<and> is_anomaly f)
            \<and> frame_count e = length (members e fs)"
    if e: "e \<in> set (localize env fs)" for e
  proof -
    from e obtain e0 where e0: "e0 \<in> set (localize_loop [] None fs)" "e = score_event env e0"
      by (auto simp: localize_def)
    have "\<forall>e\<in>set (localize_loop [] None fs). closed_run ([] @ fs) e"
      by (rule localize_loop_runs) auto
    with e0 have "closed_run fs e0" by simp
    then obtain pre mem post where d: "fs = pre @ mem @ post" and g: "good_run mem e0"
      unfolding closed_run_def by blast
    have mem: "members e fs = mem"
      unfolding members_def e0(2) score_event_fields
      by (rule sorted_run_members[OF srt d]) (use g in \<open>auto simp: good_run_def\<close>)
    have mem': "members (score_event env e0) fs = mem" using mem e0(2) by simp
    show ?thesis
      using g unfolding e0(2) mem' good_run_def score_event_fields by simp
  qed
  have cov: "\<exists>e\<in>set (localize env fs). covers e f" if f: "f \<in> set fs" "is_anomaly f" for f
  proof -
    have "\<forall>g\<in>set ([] @ fs). is_anomaly g \<longrightarrow>
            (\<exists>e\<in>set (localize_loop [] None fs). covers e g)"
      by (rule localize_loop_covers) auto
    then obtain e where "e \<in> set (localize_loop [] None fs)" "covers e f"
      using f by auto
    then have "score_event env e \<in> set (localize env fs)" "covers (score_event env e) f"
      by (auto simp: localize_def covers_def score_event_fields)
    then show ?thesis by blast
  qed
  have "separated (localize_loop [] None fs)"
    by (rule localize_loop_separated[OF _ srt]) (simp add: scan_inv_def)
  then have sep: "separated (localize env fs)"
    by (simp add: localize_def separated_map_score)
  have step: "\<forall>locs e f rest. is_anomaly f \<longrightarrow>
          localize_loop locs (Some e) (f # rest)
          = (if event e = frame_type f \<and> index f = end_frame e + 1
             then localize_loop locs (Some (extend_event e f)) rest
             else localize_loop (locs @ [e]) (Some (new_event f)) rest)"
    by simp
  from runs cov sep step show ?thesis by blast
qed

text \<open>
  The scenario of the specification, on frames 0 to 4: the anomalous frames 1 and 2
  form one event, and frame 4, after the unflagged frame 3, another.
\<close>

theorem C4_events_contiguous_witness:
  "sorted_wrt (<) (map index ex_scan)
   \<and> map (\<lambda>e. (event e, start_frame e, end_frame e, frame_count e)) (localize exact_env ex_scan)
     = [(anomaly_discontinuity, 1, 2, 2), (anomaly_discontinuity, 4, 4, 1)]
   \<and> map (\<lambda>e. map index (members e ex_scan)) (localize exact_env ex_scan) = [[1, 2], [4]]
   \<and> separated (localize exact_env ex_scan)"
  using C4_events_contiguous[of ex_scan exact_env]
  by (simp add: localize_def members_def ex_scan_def ex_flagged_def mk_frame_def
      is_anomaly_def new_event_def extend_event_def score_event_def Let_def
      mergeable_def)

subsection \<open>C6: technical severity of a frame\<close>

text \<open>
  Claim C6, with the cap the program applies. For a frame whose metrics are recognized
  metrics only (a \<^verbatim>\<open>dict\<close>: its keys are distinct) with numbers as values: when there
  is at least one, the severity is the sum of ssim_drop * 2, |z-score| / 10 and
  ela max-difference / 200, each capped at 1, and of the sift inlier ratio as it is,
  divided by the count of the metrics present and clamped to at most 1; when the frame
  has no metrics, it is the constant of the frame's confidence label
  (0.9, 0.7, 0.5, 0.3, 0.1 for N/A, and 0.3 for any other text).
\<close>

theorem C6_frame_severity:
  assumes "numeric_at m ''ssim_drop''" "numeric_at m ''optical_flow_z_score''"
    "numeric_at m ''sift_inlier_ratio''" "numeric_at m ''ela_max_difference''"
    and m: "metrics (evidence_obj f) = m"
    and d: "distinct (map fst m)"
    and k: "set (map fst m) \<subseteq> {''ssim_drop'', ''optical_flow_z_score'',
                                ''sift_inlier_ratio'', ''ela_max_difference''}"
  shows "frame_severity f =
     Inr (if m \<noteq> [] then
            min 1 ((capped_term (num_metric m ''ssim_drop'') (\<lambda>x. x * 2)
                    + capped_term (num_metric m ''optical_flow_z_score'') (\<lambda>x. \<bar>x\<bar> / 10)
                    + spec_term (num_metric m ''sift_inlier_ratio'') (\<lambda>x. x)
                    + capped_term (num_metric m ''ela_max_difference'') (\<lambda>x. x / 200))
                   / real (recognized_count m))
          else fallback_severity (confidence (evidence_obj f)))"
proof -
  have fb: "dict_get confidence_severity c 0.3 = fallback_severity c" for c
    by (simp add: dict_get_def confidence_severity_def fallback_severity_def)
  have len: "recognized_count m = length m"
    by (rule recognized_count_all[OF d k])
  show ?thesis
    unfolding frame_severity_def m Let_def fb len
    by (simp add: add_metric_numeric assms(1-4) capped_term_def spec_term_def
        split: option.splits)
qed

text \<open>
  A frame with an SSIM drop of 0.8 and a z-score of 6: (min 1 1.6 + 0.6) / 2 = 0.8.
  An inserted frame, which has no metrics and confidence VERY_HIGH: 0.9.
\<close>

theorem C6_frame_severity_witness:
  "frame_severity ex_severity_frame = Inr 0.8
   \<and> recognized_count (metrics (evidence_obj ex_severity_frame)) = 2
   \<and> metrics (evidence_obj ex_inserted) = []
   \<and> confidence (evidence_obj ex_inserted) = SANGAT_TINGGI
   \<and> frame_severity ex_inserted = Inr 0.9"
  using C6_frame_severity[of "metrics (evidence_obj ex_severity_frame)" ex_severity_frame]
    C6_frame_severity[of "[]" ex_inserted]
  by (simp add: ex_severity_frame_def ex_inserted_def mark_insertion_def set_confidence_def
      add_reason_def mk_frame_def empty_evidence_def recognized_count_def
      numeric_at_def num_metric_def capped_term_def spec_term_def fallback_severity_def)

text \<open>
  The claim as stated sums the normalized metrics without capping each of them. On the
  frame above, whose two metrics are both recognized, that gives (1.6 + 0.6) / 2 = 1.1,
  clamped to 1, while the program gives 0.8.
\<close>

theorem C6_frame_severity_counterexample:
  "is_anomaly ex_severity_frame
   \<and> frame_severity ex_severity_frame = Inr 0.8
   \<and> length (metrics (evidence_obj ex_severity_frame)) = 2
   \<and> recognized_count (metrics (evidence_obj ex_severity_frame)) = 2
   \<and> spec_frame_severity (metrics (evidence_obj ex_severity_frame)) 2 = 1
   \<and> frame_severity ex_severity_frame
       \<noteq> Inr (spec_frame_severity (metrics (evidence_obj ex_severity_frame)) 2)"
  by (simp add: ex_severity_frame_def mk_frame_def is_anomaly_def frame_severity_def
      add_metric_def recognized_count_def spec_frame_severity_def spec_term_def
      num_metric_def)

subsection \<open>C3: the reasons of the SSIM pass\<close>

text \<open>
  Claim C3, as the program decides it. For every frame \<open>i \<ge> 1\<close> of the SSIM pass whose
  own SSIM value and that of frame \<open>i - 1\<close> are present, the pass appends exactly this
  to the reasons of the frame: ``SSIM drastic drop'' when the float difference
  ssim[i-1] - ssim[i] exceeds the configured drop threshold; otherwise ``SSIM very low''
  when ssim[i] is below the float 0.7; otherwise nothing. The second test is the
  \<^verbatim>\<open>elif\<close> of the first, so the two reasons never fire on the same frame. When one of
  the two values is absent nothing is appended.
\<close>

theorem C3_ssim_reasons:
  assumes i: "0 < i" "i < length fs"
  shows "reasons (evidence_obj (ssim_pass cfg env fs ! i))
     = reasons (evidence_obj (fs ! i))
       @ (case (ssim_to_prev (fs ! (i - 1)), ssim_to_prev (fs ! i)) of
            (Some prev, Some cur) \<Rightarrow>
              if fsub env prev cur > SSIM_DISCONTINUITY_DROP cfg
              then [''Penurunan Drastis SSIM'']
              else if cur < float_0_7 then [''SSIM Sangat Rendah'']
              else []
          | _ \<Rightarrow> [])"
proof -
  have step: "ssim_pass cfg env fs ! i = ssim_check cfg env (ssim_pass cfg env fs ! (i - 1)) (fs ! i)"
    using pairwise_pass_nth[of i fs "ssim_check cfg env"] i by (simp add: ssim_pass_def)
  have prev: "ssim_to_prev (ssim_pass cfg env fs ! (i - 1)) = ssim_to_prev (fs ! (i - 1))"
    using ssim_pass_ssim[of "i - 1" fs cfg env] i by simp
  show ?thesis
    unfolding step ssim_check_reasons prev by simp
qed

text \<open>
  On the four example frames with the default configuration: frame 1 (1.0 to 0.5) gets
  the drastic drop, frame 2 (0.5 to 0.5) the very low value, frame 3 (0.5 to 0.75)
  nothing.
\<close>

theorem C3_ssim_reasons_witness:
  "reasons (evidence_obj (ssim_pass CONFIG exact_env ex_ssim_frames ! 1))
     = [''Penurunan Drastis SSIM'']
   \<and> reasons (evidence_obj (ssim_pass CONFIG exact_env ex_ssim_frames ! 2))
     = [''SSIM Sangat Rendah'']
   \<and> reasons (evidence_obj (ssim_pass CONFIG exact_env ex_ssim_frames ! 3)) = []"
  using C3_ssim_reasons[of 1 ex_ssim_frames CONFIG exact_env]
    C3_ssim_reasons[of 2 ex_ssim_frames CONFIG exact_env]
    C3_ssim_reasons[of 3 ex_ssim_frames CONFIG exact_env]
  by (simp add: ex_ssim_frames_nth mk_frame_fields CONFIG_def exact_env_def
      float_0_30_def float_0_7_def)

text \<open>
  The claim as stated lets both reasons fire on a frame with a drop above 0.30 and a
  value below 0.7. Frame 1 of the example is such a frame (drop 0.5, value 0.5), and at
  the end of stage 3 it carries the drastic drop alone.
\<close>

theorem C3_ssim_reasons_counterexample:
  "ssim_to_prev (ex_ssim_frames ! 0) = Some 1 \<and> ssim_to_prev (ex_ssim_frames ! 1) = Some 0.5
   \<and> SSIM_DISCONTINUITY_DROP CONFIG < fsub exact_env 1 0.5 \<and> (0.5::real) < float_0_7
   \<and> map_option (map (\<lambda>f. reasons (evidence_obj f)))
       (stage_frames (run_tahap_3_sintesis_bukti CONFIG exact_env (mk_result ex_ssim_frames)))
     = Some [[], [''Penurunan Drastis SSIM''], [''SSIM Sangat Rendah''], []]
   \<and> ''SSIM Sangat Rendah''
       \<notin> set (reasons (evidence_obj (ssim_pass CONFIG exact_env ex_ssim_frames ! 1)))"
  by (simp add: stage_frames_def run_tahap_3_sintesis_bukti_def mk_result_def ex_ssim_frames_def
      mk_frame_def exact_env_def float_0_30_def float_0_7_def float_0_6745_def float_1e_9_def
      flow_pass_def flow_check_def median_def median_abs_deviation_def
      ssim_pass_def scene_pass_def pairwise_pass_def ssim_check_def scene_check_def
      CONFIG_def set_metric_def add_reason_def empty_evidence_def Let_def
      duplication_pass_def build_hash_map_def hash_truthy_def hash_map_add_def dict_get_def
      dup_candidates_def dup_pairs_def synthesize_frame_def count_confidence_def set_confidence_def
      join_reasons_def)

subsection \<open>C7: suspicious ELA regions and the escalation\<close>

text \<open>
  Claim C7. For a frame whose ELA succeeds, on an ELA array with rows of one length and
  pixels with channels: the suspicious regions that \<^verbatim>\<open>analyze_ela_regions\<close> reports
  are exactly the grid cells whose mean exceeds 30 or whose maximum exceeds 100, and
  \<open>n\<close> is their number. If \<open>n\<close> is positive, the ELA reason is among the frame's
  reasons (appended unless it was there) and the metrics record the maximum difference
  and \<open>n\<close>; if \<open>n\<close> is 0, reasons and metrics are unchanged. If \<open>n\<close> exceeds 5,
  confidence MEDIUM becomes HIGH and confidence HIGH becomes VERY_HIGH, one tier and no
  more however large \<open>n\<close> is; in every other case the confidence is unchanged.
  (The mean of a region is computed over the reals: the sum of at most 7500 bytes is
  exact in a double, and the rounded quotient exceeds 30 exactly when the exact one
  does.)
\<close>

theorem C7_ela_escalation:
  assumes ela: "perform_ela env (img_path_original f) = Some (p, max_diff, arr)"
    and rect: "\<forall>row\<in>set arr. length row = snd (shape arr)"
    and chans: "\<forall>row\<in>set arr. \<forall>px\<in>set row. px \<noteq> []"
    and n: "n = suspicious_count (analyze_ela_regions arr 50)"
  shows "map (\<lambda>r. (region_y r, region_x r)) (suspicious_regions (analyze_ela_regions arr 50))
           = filter (cell_suspicious arr) (grid_cells arr 50)
     \<and> length (filter (cell_suspicious arr) (grid_cells arr 50)) = n
     \<and> reasons (evidence_obj (ela_check env f))
         = (if 0 < n \<and> ELA_REASON \<notin> set (reasons (evidence_obj f))
            then reasons (evidence_obj f) @ [ELA_REASON] else reasons (evidence_obj f))
     \<and> (0 < n \<longrightarrow>
          map_of (metrics (evidence_obj (ela_check env f))) ''ela_max_difference''
            = Some (MNum (real max_diff))
          \<and> map_of (metrics (evidence_obj (ela_check env f))) ''ela_suspicious_regions''
            = Some (MNum (real n)))
     \<and> (n = 0 \<longrightarrow> metrics (evidence_obj (ela_check env f)) = metrics (evidence_obj f))
     \<and> confidence (evidence_obj (ela_check env f))
         = (if 5 < n \<and> confidence (evidence_obj f) = SEDANG then TINGGI
            else if 5 < n \<and> confidence (evidence_obj f) = TINGGI then SANGAT_TINGGI
            else confidence (evidence_obj f))"
proof -
  have cells: "filter (region_suspicious arr 50) (grid_cells arr 50)
     = filter (cell_suspicious arr) (grid_cells arr 50)"
    by (rule filter_suspicious_cells[OF rect chans])
  have n': "n = length (filter (region_suspicious arr 50) (grid_cells arr 50))"
    using n by (simp add: suspicious_count_filter)
  have es: "ela_suspicious env f = n"
    using ela n' by (simp add: ela_suspicious_def)
  have c1: "map (\<lambda>r. (region_y r, region_x r)) (suspicious_regions (analyze_ela_regions arr 50))
           = filter (cell_suspicious arr) (grid_cells arr 50)"
    using suspicious_regions_cells[of arr 50] cells by simp
  have c2: "length (filter (cell_suspicious arr) (grid_cells arr 50)) = n"
    using n' cells by simp
  have c3: "reasons (evidence_obj (ela_check env f))
         = (if 0 < n \<and> ELA_REASON \<notin> set (reasons (evidence_obj f))
            then reasons (evidence_obj f) @ [ELA_REASON] else reasons (evidence_obj f))"
    using ela_check_reasons[of env f] es by simp
  have c4: "0 < n \<longrightarrow>
          map_of (metrics (evidence_obj (ela_check env f))) ''ela_max_difference''
            = Some (MNum (real max_diff))
          \<and> map_of (metrics (evidence_obj (ela_check env f))) ''ela_suspicious_regions''
            = Some (MNum (real n))"
    using ela_check_metrics[OF ela] n' by simp
  have c5: "n = 0 \<longrightarrow> metrics (evidence_obj (ela_check env f)) = metrics (evidence_obj f)"
    using ela_check_metrics_none[of env f] es by simp
  have c6: "confidence (evidence_obj (ela_check env f))
         = (if 5 < n \<and> confidence (evidence_obj f) = SEDANG then TINGGI
            else if 5 < n \<and> confidence (evidence_obj f) = TINGGI then SANGAT_TINGGI
            else confidence (evidence_obj f))"
    using ela_check_confidence[of env f] es by (simp add: next_tier_def)
  from c1 c2 c3 c4 c5 c6 show ?thesis by blast
qed

text \<open>
  A frame with two reasons and confidence MEDIUM whose ELA array has six suspicious
  cells becomes HIGH, one with confidence HIGH becomes VERY_HIGH; with three suspicious
  cells the reason and the metrics are added and the confidence stays; with none
  nothing changes. The last line is the same frame through the whole of stage 3.
\<close>

theorem C7_ela_escalation_witness:
  "suspicious_count (analyze_ela_regions (ela_strip 251 200) 50) = 6
   \<and> reasons (evidence_obj (ela_check (ela_env 251 200) ex_medium))
       = [''Penurunan Drastis SSIM'', ''Perubahan Adegan (dari K-Means)'', ELA_REASON]
   \<and> map_of (metrics (evidence_obj (ela_check (ela_env 251 200) ex_medium)))
         ''ela_max_difference'' = Some (MNum 200)
   \<and> map_of (metrics (evidence_obj (ela_check (ela_env 251 200) ex_medium)))
         ''ela_suspicious_regions'' = Some (MNum 6)
   \<and> confidence (evidence_obj (ela_check (ela_env 251 200) ex_medium)) = TINGGI
   \<and> confidence (evidence_obj (ela_check (ela_env 251 200) ex_high)) = SANGAT_TINGGI
   \<and> suspicious_count (analyze_ela_regions (ela_strip 101 200) 50) = 3
   \<and> reasons (evidence_obj (ela_check (ela_env 101 200) ex_medium))
       = [''Penurunan Drastis SSIM'', ''Perubahan Adegan (dari K-Means)'', ELA_REASON]
   \<and> confidence (evidence_obj (ela_check (ela_env 101 200) ex_medium)) = SEDANG
   \<and> suspicious_count (analyze_ela_regions (ela_strip 251 0) 50) = 0
   \<and> reasons (evidence_obj (ela_check (ela_env 251 0) ex_medium))
       = [''Penurunan Drastis SSIM'', ''Perubahan Adegan (dari K-Means)'']
   \<and> metrics (evidence_obj (ela_check (ela_env 251 0) ex_medium))
       = metrics (evidence_obj ex_medium)
   \<and> confidence (evidence_obj (ela_check (ela_env 251 0) ex_medium)) = SEDANG
   \<and> map_option (map (\<lambda>f. (frame_type f, reasons (evidence_obj f), confidence (evidence_obj f))))
         (stage_frames (run_tahap_3_sintesis_bukti CONFIG (ela_env 251 200)
            (mk_result ex_scene_frames)))
       = Some [(original, [], NA),
               (anomaly_discontinuity,
                [ELA_REASON, ''Penurunan Drastis SSIM'', ''Perubahan Adegan (dari K-Means)''],
                TINGGI)]"
  using
    C7_ela_escalation[where f = ex_medium and env = "ela_env 251 200",
      OF ela_env_perform strip_wellformed strip_count(1)[symmetric]]
    C7_ela_escalation[where f = ex_high and env = "ela_env 251 200",
      OF ela_env_perform strip_wellformed strip_count(1)[symmetric]]
    C7_ela_escalation[where f = ex_medium and env = "ela_env 101 200",
      OF ela_env_perform strip_wellformed strip_count(2)[symmetric]]
    C7_ela_escalation[where f = ex_medium and env = "ela_env 251 0",
      OF ela_env_perform strip_wellformed strip_count(3)[symmetric]]
  by (simp add: ex_medium_fields strip_count ex_scene_stage(1))

end
